theory Spec2Isabelle
  imports Main "HOL-Library.Word"
begin

section \<open>Data model of the event receiver\<close>

text \<open>
  The development follows the HTTP receiver (\<^verbatim>\<open>http/events.go\<close>, the variant that
  declares its own protocol types) and the gRPC receiver (\<^verbatim>\<open>grpc/events.go\<close>). Both
  keep the same service state and share the text of \<^verbatim>\<open>store\<close>,
  \<^verbatim>\<open>HandleListEvents\<close>, \<^verbatim>\<open>HandleStats\<close> and \<^verbatim>\<open>HandleClearEvents\<close>.

  The sources hold a second version of the HTTP receiver that takes the protocol types
  from a library, where \<^verbatim>\<open>TenantKey\<close> is a pointer read as the empty string when nil;
  its handlers are the same otherwise.

  Go's \<^verbatim>\<open>int64\<close> is a 64-bit word whose addition wraps, and \<^verbatim>\<open>int\<close> has 64 bits as well;
  \<^verbatim>\<open>len\<close> of a slice is a natural number. The logger and the mutex are not part of the
  sequential state.
\<close>

type_synonym int64 = "64 word"

text \<open>\<^verbatim>\<open>const maxStoredEvents = 10000\<close>\<close>

definition maxStoredEvents :: nat where
  "maxStoredEvents = 10000"

text \<open>\<^verbatim>\<open>type UsageEvent struct\<close> of the HTTP receiver.\<close>

record UsageEvent =
  Key :: string
  TenantKey :: string
  Method :: string
  Path :: string
  Allowed :: bool
  Remaining :: int64
  Limit :: int64
  Timestamp :: string
  StatusCode :: int64
  RequestID :: string
  Reason :: string

text \<open>
  \<^verbatim>\<open>type PublishEventsRequest struct { Events []UsageEvent }\<close>. A Go slice may be
  \<^verbatim>\<open>nil\<close>: \<open>None\<close> is the nil slice, \<open>Some xs\<close> a slice with the elements \<open>xs\<close>.
\<close>

record PublishEventsRequest =
  Events :: "UsageEvent list option"

text \<open>
  What \<^verbatim>\<open>len\<close>, \<^verbatim>\<open>range\<close> and \<^verbatim>\<open>append(s, b...)\<close> see of a slice: the nil slice has
  no elements.
\<close>

fun elems :: "'a list option \<Rightarrow> 'a list" where
  "elems None = []"
| "elems (Some xs) = xs"

text \<open>\<^verbatim>\<open>type EventStats struct\<close>\<close>

record EventStats =
  TotalReceived :: int64
  TotalAllowed :: int64
  TotalDenied :: int64
  StoredEvents :: nat

text \<open>
  \<^verbatim>\<open>type EventService struct\<close>: the slice \<^verbatim>\<open>events\<close> and the three
  \<^verbatim>\<open>atomic.Int64\<close> counters. The element type is a parameter, since the two
  receivers declare their own event struct.
\<close>

record 'e EventService =
  events :: "'e list"
  totalReceived :: int64
  totalAllowed :: int64
  totalDenied :: int64

text \<open>\<^verbatim>\<open>NewEventService\<close>: an empty slice (capacity 1024) and zeroed counters.\<close>

definition NewEventService :: "'e EventService" where
  "NewEventService = \<lparr>events = [], totalReceived = 0, totalAllowed = 0, totalDenied = 0\<rparr>"

section \<open>The store\<close>

text \<open>
  \<^verbatim>\<open>
  func (s *EventService) store(batch []UsageEvent) {
      s.mu.Lock(); defer s.mu.Unlock()
      s.events = append(s.events, batch...)
      if len(s.events) > maxStoredEvents {
          excess := len(s.events) - maxStoredEvents
          s.events = s.events[excess:]
      }
  }
  \<close>
\<close>

definition store :: "'e list \<Rightarrow> 'e EventService \<Rightarrow> 'e EventService" where
  "store batch s =
     (let s1 = s\<lparr>events := events s @ batch\<rparr> in
      if length (events s1) > maxStoredEvents then
        (let excess = length (events s1) - maxStoredEvents
         in s1\<lparr>events := drop excess (events s1)\<rparr>)
      else s1)"

section \<open>Responses\<close>

text \<open>
  What a handler writes: the status code and the JSON value of the body
  (\<^verbatim>\<open>writeJSON(w, code, v)\<close>), or a bare status (\<^verbatim>\<open>w.WriteHeader\<close>).
\<close>

datatype 'e body =
    ErrorResponse string
  | PublishEventsResponse int64
  | EventList "'e list"
  | Stats EventStats
  | NoBody

record 'e response =
  status :: nat
  body :: "'e body"

definition writeJSON :: "nat \<Rightarrow> 'e body \<Rightarrow> 'e response" where
  "writeJSON c v = \<lparr>status = c, body = v\<rparr>"

definition StatusOK :: nat where "StatusOK = 200"
definition StatusNoContent :: nat where "StatusNoContent = 204"
definition StatusBadRequest :: nat where "StatusBadRequest = 400"

section \<open>POST /events\<close>

text \<open>
  The classification loop of \<^verbatim>\<open>HandlePublishEvents\<close>:
  \<^verbatim>\<open>
  var allowed, denied int64
  for _, ev := range req.Events {
      if ev.Allowed { allowed++ } else { denied++ }
  }
  \<close>
  The pair is \<open>(allowed, denied)\<close>.
\<close>

fun classify :: "UsageEvent list \<Rightarrow> int64 \<times> int64 \<Rightarrow> int64 \<times> int64" where
  "classify [] (allowed, denied) = (allowed, denied)"
| "classify (ev # evs) (allowed, denied) =
     (if Allowed ev then classify evs (allowed + 1, denied)
      else classify evs (allowed, denied + 1))"

text \<open>
  \<^verbatim>\<open>
  func (s *EventService) HandlePublishEvents(w http.ResponseWriter, r *http.Request) {
      var req PublishEventsRequest
      if err := json.NewDecoder(r.Body).Decode(&req); err != nil {
          writeJSON(w, http.StatusBadRequest, errorResponse{Error: "invalid request body"})
          return
      }
      count := int64(len(req.Events))
      ... classification loop ...
      s.store(req.Events)
      s.totalReceived.Add(count)
      s.totalAllowed.Add(allowed)
      s.totalDenied.Add(denied)
      writeJSON(w, http.StatusOK, PublishEventsResponse{Accepted: count})
  }
  \<close>
  The JSON decoder belongs to the standard library; it is the parameter \<open>decode\<close>, from
  the request body to the decoded request, \<open>None\<close> when \<^verbatim>\<open>Decode\<close> returns an error.
\<close>

definition HandlePublishEvents ::
  "('b \<Rightarrow> PublishEventsRequest option) \<Rightarrow> 'b \<Rightarrow> UsageEvent EventService
     \<Rightarrow> UsageEvent response \<times> UsageEvent EventService" where
  "HandlePublishEvents decode reqBody s =
     (case decode reqBody of
        None \<Rightarrow> (writeJSON StatusBadRequest (ErrorResponse ''invalid request body''), s)
      | Some req \<Rightarrow>
          (let count = (word_of_nat (length (elems (Events req))) :: int64);
               (allowed, denied) = classify (elems (Events req)) (0, 0);
               s1 = store (elems (Events req)) s;
               s2 = s1\<lparr>totalReceived := totalReceived s1 + count\<rparr>;
               s3 = s2\<lparr>totalAllowed := totalAllowed s2 + allowed\<rparr>;
               s4 = s3\<lparr>totalDenied := totalDenied s3 + denied\<rparr>
           in (writeJSON StatusOK (PublishEventsResponse count), s4)))"

section \<open>GET /events\<close>

text \<open>
  \<^verbatim>\<open>strconv.Atoi\<close> of the standard library, on a 64-bit platform: an optional sign,
  then one or more decimal digits, and the value must fit \<^verbatim>\<open>int\<close>. \<open>None\<close> stands
  for a non-nil error (syntax or range).
\<close>

definition digit_val :: "char \<Rightarrow> nat option" where
  "digit_val c =
     (let n = (of_char c :: nat) in if 48 \<le> n \<and> n \<le> 57 then Some (n - 48) else None)"

fun parse_digits :: "string \<Rightarrow> nat \<Rightarrow> nat option" where
  "parse_digits [] n = Some n"
| "parse_digits (c # cs) n =
     (case digit_val c of None \<Rightarrow> None | Some d \<Rightarrow> parse_digits cs (n * 10 + d))"

definition Atoi :: "string \<Rightarrow> int option" where
  "Atoi str =
     (case str of
        [] \<Rightarrow> None
      | c # cs \<Rightarrow>
          (let neg = (c = CHR ''-'');
               ds = (if c = CHR ''-'' \<or> c = CHR ''+'' then cs else str)
           in if ds = [] then None
              else (case parse_digits ds 0 of
                      None \<Rightarrow> None
                    | Some un \<Rightarrow>
                        if neg then (if un > 2 ^ 63 then None else Some (- int un))
                        else (if un \<ge> 2 ^ 63 then None else Some (int un)))))"

text \<open>
  The loop of \<^verbatim>\<open>HandleListEvents\<close>, with the loop variable \<open>i\<close> and the slice
  \<open>result\<close> built so far:
  \<^verbatim>\<open>
  for i := len(s.events) - 1; i >= 0 && len(result) < limit; i-- {
      ev := s.events[i]
      if tenantFilter != "" && ev.TenantKey != tenantFilter { continue }
      result = append(result, ev)
  }
  \<close>
\<close>

function list_loop ::
  "UsageEvent list \<Rightarrow> string \<Rightarrow> int \<Rightarrow> int \<Rightarrow> UsageEvent list \<Rightarrow> UsageEvent list" where
  "list_loop evs tenantFilter limit i result =
     (if i \<ge> 0 \<and> int (length result) < limit then
        (let ev = evs ! nat i in
         if tenantFilter \<noteq> [] \<and> TenantKey ev \<noteq> tenantFilter
         then list_loop evs tenantFilter limit (i - 1) result
         else list_loop evs tenantFilter limit (i - 1) (result @ [ev]))
      else result)"
  by pat_completeness auto
termination
  by (relation "measure (\<lambda>(evs, tenantFilter, limit, i, result). nat (i + 1))") auto

declare list_loop.simps [simp del]

text \<open>
  \<^verbatim>\<open>
  func (s *EventService) HandleListEvents(w http.ResponseWriter, r *http.Request) {
      tenantFilter := r.URL.Query().Get("tenant_key")
      limitStr := r.URL.Query().Get("limit")
      limit := 100
      if limitStr != "" {
          if n, err := strconv.Atoi(limitStr); err == nil && n > 0 { limit = n }
      }
      s.mu.RLock()
      result := make([]UsageEvent, 0, min(limit, len(s.events)))
      ... loop ...
      s.mu.RUnlock()
      writeJSON(w, http.StatusOK, result)
  }
  \<close>
  The two query parameters are the arguments \<open>tenantFilter\<close> and \<open>limitStr\<close> (the empty
  string when the parameter is absent).
\<close>

definition parse_limit :: "string \<Rightarrow> int" where
  "parse_limit limitStr =
     (if limitStr \<noteq> [] then
        (case Atoi limitStr of
           Some n \<Rightarrow> if n > 0 then n else 100
         | None \<Rightarrow> 100)
      else 100)"

definition HandleListEvents ::
  "string \<Rightarrow> string \<Rightarrow> UsageEvent EventService \<Rightarrow> UsageEvent response" where
  "HandleListEvents tenantFilter limitStr s =
     (let limit = parse_limit limitStr;
          result = list_loop (events s) tenantFilter limit (int (length (events s)) - 1) []
      in writeJSON StatusOK (EventList result))"

section \<open>GET /events/stats and DELETE /events\<close>

text \<open>
  \<^verbatim>\<open>
  func (s *EventService) HandleStats(w http.ResponseWriter, _ *http.Request) {
      s.mu.RLock(); stored := len(s.events); s.mu.RUnlock()
      writeJSON(w, http.StatusOK, EventStats{
          TotalReceived: s.totalReceived.Load(), TotalAllowed: s.totalAllowed.Load(),
          TotalDenied: s.totalDenied.Load(), StoredEvents: stored})
  }
  \<close>
\<close>

definition HandleStats :: "'e EventService \<Rightarrow> 'e response" where
  "HandleStats s =
     (let stored = length (events s)
      in writeJSON StatusOK (Stats \<lparr>TotalReceived = totalReceived s,
            TotalAllowed = totalAllowed s, TotalDenied = totalDenied s,
            StoredEvents = stored\<rparr>))"

text \<open>
  \<^verbatim>\<open>
  func (s *EventService) HandleClearEvents(w http.ResponseWriter, _ *http.Request) {
      s.mu.Lock(); s.events = s.events[:0]; s.mu.Unlock()
      s.totalReceived.Store(0)
      s.totalAllowed.Store(0)
      s.totalDenied.Store(0)
      w.WriteHeader(http.StatusNoContent)
  }
  \<close>
\<close>

definition HandleClearEvents :: "'e EventService \<Rightarrow> 'e response \<times> 'e EventService" where
  "HandleClearEvents s =
     (let s1 = s\<lparr>events := take 0 (events s)\<rparr>;
          s2 = s1\<lparr>totalReceived := 0\<rparr>;
          s3 = s2\<lparr>totalAllowed := 0\<rparr>;
          s4 = s3\<lparr>totalDenied := 0\<rparr>
      in (\<lparr>status = StatusNoContent, body = NoBody\<rparr>, s4))"

section \<open>Sequences of requests\<close>

text \<open>
  The routes of \<^verbatim>\<open>main.go\<close>: \<^verbatim>\<open>POST /events\<close>, \<^verbatim>\<open>GET /events\<close>,
  \<^verbatim>\<open>GET /events/stats\<close>, \<^verbatim>\<open>DELETE /events\<close>. A request carries what its handler
  reads: the body, or the two query parameters.
\<close>

datatype 'b request =
    Publish 'b
  | ListEvents string string
  | GetStats
  | ClearEvents

fun handle ::
  "('b \<Rightarrow> PublishEventsRequest option) \<Rightarrow> 'b request \<Rightarrow> UsageEvent EventService
     \<Rightarrow> UsageEvent response \<times> UsageEvent EventService" where
  "handle decode (Publish reqBody) s = HandlePublishEvents decode reqBody s"
| "handle decode (ListEvents tenantFilter limitStr) s = (HandleListEvents tenantFilter limitStr s, s)"
| "handle decode GetStats s = (HandleStats s, s)"
| "handle decode ClearEvents s = HandleClearEvents s"

text \<open>The service state after a sequence of requests, each run to completion.\<close>

fun serve ::
  "('b \<Rightarrow> PublishEventsRequest option) \<Rightarrow> 'b request list \<Rightarrow> UsageEvent EventService
     \<Rightarrow> UsageEvent EventService" where
  "serve decode [] s = s"
| "serve decode (r # rs) s = serve decode rs (snd (handle decode r s))"

section \<open>The gRPC receiver\<close>

type_synonym int32 = "32 word"

text \<open>
  Modelled from the spec: the generated protobuf message \<^verbatim>\<open>eventsv1.UsageEvent\<close> is not
  part of the sources; its fields are those of the Event Record table (key, tenant_key,
  method, path, allowed, remaining, limit, timestamp, status_code, request_id). A batch
  holds pointers to messages, and the generated getters accept the nil pointer and
  return the zero value for it: \<open>None\<close> is the nil pointer.
\<close>

record pb_UsageEvent =
  pb_Key :: string
  pb_TenantKey :: string
  pb_Method :: string
  pb_Path :: string
  pb_Allowed :: bool
  pb_Remaining :: int64
  pb_Limit :: int64
  pb_Timestamp :: string
  pb_StatusCode :: int32
  pb_RequestId :: string

definition GetKey :: "pb_UsageEvent option \<Rightarrow> string" where
  "GetKey x = (case x of None \<Rightarrow> [] | Some m \<Rightarrow> pb_Key m)"

definition GetTenantKey :: "pb_UsageEvent option \<Rightarrow> string" where
  "GetTenantKey x = (case x of None \<Rightarrow> [] | Some m \<Rightarrow> pb_TenantKey m)"

definition GetMethod :: "pb_UsageEvent option \<Rightarrow> string" where
  "GetMethod x = (case x of None \<Rightarrow> [] | Some m \<Rightarrow> pb_Method m)"

definition GetPath :: "pb_UsageEvent option \<Rightarrow> string" where
  "GetPath x = (case x of None \<Rightarrow> [] | Some m \<Rightarrow> pb_Path m)"

definition GetAllowed :: "pb_UsageEvent option \<Rightarrow> bool" where
  "GetAllowed x = (case x of None \<Rightarrow> False | Some m \<Rightarrow> pb_Allowed m)"

definition GetRemaining :: "pb_UsageEvent option \<Rightarrow> int64" where
  "GetRemaining x = (case x of None \<Rightarrow> 0 | Some m \<Rightarrow> pb_Remaining m)"

definition GetLimit :: "pb_UsageEvent option \<Rightarrow> int64" where
  "GetLimit x = (case x of None \<Rightarrow> 0 | Some m \<Rightarrow> pb_Limit m)"

definition GetTimestamp :: "pb_UsageEvent option \<Rightarrow> string" where
  "GetTimestamp x = (case x of None \<Rightarrow> [] | Some m \<Rightarrow> pb_Timestamp m)"

definition GetStatusCode :: "pb_UsageEvent option \<Rightarrow> int32" where
  "GetStatusCode x = (case x of None \<Rightarrow> 0 | Some m \<Rightarrow> pb_StatusCode m)"

definition GetRequestId :: "pb_UsageEvent option \<Rightarrow> string" where
  "GetRequestId x = (case x of None \<Rightarrow> [] | Some m \<Rightarrow> pb_RequestId m)"

text \<open>
  Modelled from the spec: the generated request message \<^verbatim>\<open>eventsv1.PublishEventsRequest\<close>
  carries the batch; \<^verbatim>\<open>GetEvents\<close> of a nil request or of an absent field is the nil
  slice.
\<close>

record pb_PublishEventsRequest =
  pb_Events :: "pb_UsageEvent option list option"

definition GetEvents :: "pb_PublishEventsRequest option \<Rightarrow> pb_UsageEvent option list" where
  "GetEvents req = (case req of None \<Rightarrow> [] | Some m \<Rightarrow> elems (pb_Events m))"

text \<open>\<^verbatim>\<open>type UsageEvent struct\<close> of the gRPC receiver, "the JSON-friendly representation".\<close>

record grpc_UsageEvent =
  grpc_Key :: string
  grpc_TenantKey :: string
  grpc_Method :: string
  grpc_Path :: string
  grpc_Allowed :: bool
  grpc_Remaining :: int64
  grpc_Limit :: int64
  grpc_Timestamp :: string
  grpc_StatusCode :: int32
  grpc_RequestID :: string

text \<open>The zero value of the struct, as \<^verbatim>\<open>make([]UsageEvent, len(batch))\<close> fills the slice.\<close>

definition zero_UsageEvent :: grpc_UsageEvent where
  "zero_UsageEvent =
     \<lparr>grpc_Key = [], grpc_TenantKey = [], grpc_Method = [], grpc_Path = [],
      grpc_Allowed = False, grpc_Remaining = 0, grpc_Limit = 0, grpc_Timestamp = [],
      grpc_StatusCode = 0, grpc_RequestID = []\<rparr>"

text \<open>
  The struct literal of the loop of \<^verbatim>\<open>PublishEvents\<close>:
  \<^verbatim>\<open>UsageEvent{Key: ev.GetKey(), TenantKey: ev.GetTenantKey(), ..., RequestID: ev.GetRequestId()}\<close>
\<close>

definition UsageEvent_of :: "pb_UsageEvent option \<Rightarrow> grpc_UsageEvent" where
  "UsageEvent_of ev =
     \<lparr>grpc_Key = GetKey ev, grpc_TenantKey = GetTenantKey ev,
      grpc_Method = GetMethod ev, grpc_Path = GetPath ev,
      grpc_Allowed = GetAllowed ev, grpc_Remaining = GetRemaining ev,
      grpc_Limit = GetLimit ev, grpc_Timestamp = GetTimestamp ev,
      grpc_StatusCode = GetStatusCode ev, grpc_RequestID = GetRequestId ev\<rparr>"

text \<open>
  The loop of \<^verbatim>\<open>PublishEvents\<close>, with the index \<open>i\<close> and the triple
  \<open>(converted, allowed, denied)\<close>:
  \<^verbatim>\<open>
  for i, ev := range batch {
      converted[i] = UsageEvent{...}
      if ev.GetAllowed() { allowed++ } else { denied++ }
  }
  \<close>
  The index stays below \<^verbatim>\<open>len(converted)\<close>, so the assignment never panics.
\<close>

fun convert_loop ::
  "pb_UsageEvent option list \<Rightarrow> nat \<Rightarrow> grpc_UsageEvent list \<times> int64 \<times> int64
     \<Rightarrow> grpc_UsageEvent list \<times> int64 \<times> int64" where
  "convert_loop [] i (converted, allowed, denied) = (converted, allowed, denied)"
| "convert_loop (ev # rest) i (converted, allowed, denied) =
     (let converted1 = converted[i := UsageEvent_of ev]
      in if GetAllowed ev then convert_loop rest (i + 1) (converted1, allowed + 1, denied)
         else convert_loop rest (i + 1) (converted1, allowed, denied + 1))"

text \<open>
  \<^verbatim>\<open>
  func (s *EventService) PublishEvents(_ context.Context, req *eventsv1.PublishEventsRequest)
          (*eventsv1.PublishEventsResponse, error) {
      batch := req.GetEvents()
      count := int64(len(batch))
      converted := make([]UsageEvent, len(batch))
      ... loop ...
      s.store(converted)
      s.totalReceived.Add(count)
      s.totalAllowed.Add(allowed)
      s.totalDenied.Add(denied)
      return &eventsv1.PublishEventsResponse{Accepted: count}, nil
  }
  \<close>
  The returned error is always nil; the result is the \<^verbatim>\<open>Accepted\<close> field of the response.
\<close>

definition PublishEvents ::
  "pb_PublishEventsRequest option \<Rightarrow> grpc_UsageEvent EventService
     \<Rightarrow> int64 \<times> grpc_UsageEvent EventService" where
  "PublishEvents req s =
     (let batch = GetEvents req;
          count = (word_of_nat (length batch) :: int64);
          (converted, allowed, denied) =
             convert_loop batch 0 (replicate (length batch) zero_UsageEvent, 0, 0);
          s1 = store converted s;
          s2 = s1\<lparr>totalReceived := totalReceived s1 + count\<rparr>;
          s3 = s2\<lparr>totalAllowed := totalAllowed s2 + allowed\<rparr>;
          s4 = s3\<lparr>totalDenied := totalDenied s3 + denied\<rparr>
      in (count, s4))"

text \<open>
  Calls on the gRPC receiver that change its state: the RPC, and the HTTP handler
  \<^verbatim>\<open>HandleClearEvents\<close>, whose text is that of the HTTP receiver.
\<close>

datatype grpc_call =
    PublishEventsRPC "pb_PublishEventsRequest option"
  | ClearCall

fun grpc_handle :: "grpc_call \<Rightarrow> grpc_UsageEvent EventService \<Rightarrow> grpc_UsageEvent EventService" where
  "grpc_handle (PublishEventsRPC req) s = snd (PublishEvents req s)"
| "grpc_handle ClearCall s = snd (HandleClearEvents s)"

fun grpc_serve :: "grpc_call list \<Rightarrow> grpc_UsageEvent EventService \<Rightarrow> grpc_UsageEvent EventService" where
  "grpc_serve [] s = s"
| "grpc_serve (c # cs) s = grpc_serve cs (grpc_handle c s)"

section \<open>Concurrent requests\<close>

text \<open>
  Each request runs in its own goroutine. A handler touches the shared service only
  inside a critical section of \<^verbatim>\<open>s.mu\<close> or through one operation of an
  \<^verbatim>\<open>atomic.Int64\<close>; all these accesses are synchronised, so an execution is an
  interleaving of them. A goroutine is at one of the program points below; what it
  computes on its own (decoding, the classification loop, encoding the response) is
  joined to the next shared access.

  \<^item> \<^verbatim>\<open>HandlePublishEvents\<close>: \<open>AtStore\<close> before \<^verbatim>\<open>s.store(req.Events)\<close> (the body still to
    be decoded), then \<open>AtAddReceived\<close>, \<open>AtAddAllowed\<close>, \<open>AtAddDenied\<close> before the three
    \<^verbatim>\<open>Add\<close> calls, carrying \<open>count\<close>, \<open>allowed\<close> and \<open>denied\<close>.
  \<^item> \<^verbatim>\<open>HandleListEvents\<close>: \<open>AtList\<close> before the read lock; the whole loop runs under it.
  \<^item> \<^verbatim>\<open>HandleStats\<close>: \<open>AtLen\<close> before \<^verbatim>\<open>len(s.events)\<close> under the read lock, then
    \<open>AtLoadReceived\<close>, \<open>AtLoadAllowed\<close>, \<open>AtLoadDenied\<close> before the three \<^verbatim>\<open>Load\<close> calls,
    which Go evaluates in the order of the struct literal, carrying what was read.
  \<^item> \<^verbatim>\<open>HandleClearEvents\<close>: \<open>AtTruncate\<close> before \<^verbatim>\<open>s.events = s.events[:0]\<close> under the
    lock, then \<open>AtResetReceived\<close>, \<open>AtResetAllowed\<close>, \<open>AtResetDenied\<close> before the three
    \<^verbatim>\<open>Store(0)\<close> calls.
  \<^item> \<open>Finished\<close>: the handler has returned, with the response it wrote.
\<close>

datatype 'b goroutine =
    AtStore 'b
  | AtAddReceived int64 int64 int64
  | AtAddAllowed int64 int64 int64
  | AtAddDenied int64 int64 int64
  | AtList string string
  | AtLen
  | AtLoadReceived nat
  | AtLoadAllowed nat int64
  | AtLoadDenied nat int64 int64
  | AtTruncate
  | AtResetReceived
  | AtResetAllowed
  | AtResetDenied
  | Finished "UsageEvent response"

text \<open>The goroutine a request starts.\<close>

fun spawn :: "'b request \<Rightarrow> 'b goroutine" where
  "spawn (Publish reqBody) = AtStore reqBody"
| "spawn (ListEvents tenantFilter limitStr) = AtList tenantFilter limitStr"
| "spawn GetStats = AtLen"
| "spawn ClearEvents = AtTruncate"

text \<open>One shared access of a goroutine: its next program point and the service after it.\<close>

fun step ::
  "('b \<Rightarrow> PublishEventsRequest option) \<Rightarrow> 'b goroutine \<Rightarrow> UsageEvent EventService
     \<Rightarrow> 'b goroutine \<times> UsageEvent EventService" where
  "step decode (AtStore reqBody) s =
     (case decode reqBody of
        None \<Rightarrow> (Finished (writeJSON StatusBadRequest (ErrorResponse ''invalid request body'')), s)
      | Some req \<Rightarrow>
          (let count = (word_of_nat (length (elems (Events req))) :: int64);
               (allowed, denied) = classify (elems (Events req)) (0, 0)
           in (AtAddReceived count allowed denied, store (elems (Events req)) s)))"
| "step decode (AtAddReceived count allowed denied) s =
     (AtAddAllowed count allowed denied, s\<lparr>totalReceived := totalReceived s + count\<rparr>)"
| "step decode (AtAddAllowed count allowed denied) s =
     (AtAddDenied count allowed denied, s\<lparr>totalAllowed := totalAllowed s + allowed\<rparr>)"
| "step decode (AtAddDenied count allowed denied) s =
     (Finished (writeJSON StatusOK (PublishEventsResponse count)),
      s\<lparr>totalDenied := totalDenied s + denied\<rparr>)"
| "step decode (AtList tenantFilter limitStr) s =
     (Finished (HandleListEvents tenantFilter limitStr s), s)"
| "step decode AtLen s = (AtLoadReceived (length (events s)), s)"
| "step decode (AtLoadReceived stored) s = (AtLoadAllowed stored (totalReceived s), s)"
| "step decode (AtLoadAllowed stored received) s =
     (AtLoadDenied stored received (totalAllowed s), s)"
| "step decode (AtLoadDenied stored received allowed) s =
     (Finished (writeJSON StatusOK (Stats \<lparr>TotalReceived = received, TotalAllowed = allowed,
        TotalDenied = totalDenied s, StoredEvents = stored\<rparr>)), s)"
| "step decode AtTruncate s = (AtResetReceived, s\<lparr>events := take 0 (events s)\<rparr>)"
| "step decode AtResetReceived s = (AtResetAllowed, s\<lparr>totalReceived := 0\<rparr>)"
| "step decode AtResetAllowed s = (AtResetDenied, s\<lparr>totalAllowed := 0\<rparr>)"
| "step decode AtResetDenied s =
     (Finished \<lparr>status = StatusNoContent, body = NoBody\<rparr>, s\<lparr>totalDenied := 0\<rparr>)"
| "step decode (Finished resp) s = (Finished resp, s)"

text \<open>
  A configuration is the service and the goroutines in flight. The scheduler picks the
  goroutine that moves next, by its index; picking a finished goroutine, or an index
  that names none, changes nothing.
\<close>

type_synonym 'b config = "UsageEvent EventService \<times> 'b goroutine list"

definition schedule ::
  "('b \<Rightarrow> PublishEventsRequest option) \<Rightarrow> nat \<Rightarrow> 'b config \<Rightarrow> 'b config" where
  "schedule decode i cfg =
     (if i < length (snd cfg)
      then (snd (step decode (snd cfg ! i) (fst cfg)),
            (snd cfg)[i := fst (step decode (snd cfg ! i) (fst cfg))])
      else cfg)"

fun run :: "('b \<Rightarrow> PublishEventsRequest option) \<Rightarrow> nat list \<Rightarrow> 'b config \<Rightarrow> 'b config" where
  "run decode [] cfg = cfg"
| "run decode (i # sched) cfg = run decode sched (schedule decode i cfg)"

text \<open>The states of the service at the successive instants of a run, the first included.\<close>

fun instants ::
  "('b \<Rightarrow> PublishEventsRequest option) \<Rightarrow> nat list \<Rightarrow> 'b config \<Rightarrow> UsageEvent EventService list" where
  "instants decode [] cfg = [fst cfg]"
| "instants decode (i # sched) cfg = fst cfg # instants decode sched (schedule decode i cfg)"

section \<open>Notions used to state the properties\<close>

text \<open>The records a request hands to \<^verbatim>\<open>store\<close>: the decoded batch of a publish request.\<close>

fun batch_of :: "('b \<Rightarrow> PublishEventsRequest option) \<Rightarrow> 'b request \<Rightarrow> UsageEvent list" where
  "batch_of decode (Publish reqBody) =
     (case decode reqBody of None \<Rightarrow> [] | Some req \<Rightarrow> elems (Events req))"
| "batch_of decode (ListEvents tenantFilter limitStr) = []"
| "batch_of decode GetStats = []"
| "batch_of decode ClearEvents = []"

text \<open>All records ingested by a sequence of requests, in arrival order.\<close>

definition ingested ::
  "('b \<Rightarrow> PublishEventsRequest option) \<Rightarrow> 'b request list \<Rightarrow> UsageEvent list" where
  "ingested decode rs = concat (map (batch_of decode) rs)"

text \<open>The last \<open>n\<close> elements of a sequence, in their order.\<close>

definition newest :: "nat \<Rightarrow> 'a list \<Rightarrow> 'a list" where
  "newest n xs = drop (length xs - n) xs"

text \<open>Reading a response body back, as the tests do with \<^verbatim>\<open>json.NewDecoder\<close>.\<close>

definition stats_of :: "'e response \<Rightarrow> EventStats option" where
  "stats_of r = (case body r of Stats st \<Rightarrow> Some st | _ \<Rightarrow> None)"

definition list_of :: "'e response \<Rightarrow> 'e list option" where
  "list_of r = (case body r of EventList evs \<Rightarrow> Some evs | _ \<Rightarrow> None)"

definition accepted_of :: "'e response \<Rightarrow> int64 option" where
  "accepted_of r = (case body r of PublishEventsResponse n \<Rightarrow> Some n | _ \<Rightarrow> None)"

text \<open>
  Inputs for the concrete runs: an event as the tests write it (the fields not named
  are zero), and a decoder that accepts a batch as it is and rejects everything else.
\<close>

definition testEvent :: "string \<Rightarrow> string \<Rightarrow> bool \<Rightarrow> UsageEvent" where
  "testEvent k t a =
     \<lparr>Key = k, TenantKey = t, Method = ''GET'', Path = ''/a'', Allowed = a, Remaining = 0,
      Limit = 0, Timestamp = ''t1'', StatusCode = 0, RequestID = [], Reason = []\<rparr>"

definition testDecode :: "UsageEvent list option option \<Rightarrow> PublishEventsRequest option" where
  "testDecode b = (case b of None \<Rightarrow> None | Some evs \<Rightarrow> Some \<lparr>Events = evs\<rparr>)"

text \<open>How many records of a batch are allowed, and how many denied.\<close>

definition allowed_count :: "UsageEvent list \<Rightarrow> nat" where
  "allowed_count evs = length (filter Allowed evs)"

definition denied_count :: "UsageEvent list \<Rightarrow> nat" where
  "denied_count evs = length (filter (\<lambda>ev. \<not> Allowed ev) evs)"

text \<open>The same for a batch of the gRPC receiver, and the messages its calls ingest.\<close>

definition pb_allowed_count :: "pb_UsageEvent option list \<Rightarrow> nat" where
  "pb_allowed_count batch = length (filter GetAllowed batch)"

definition pb_denied_count :: "pb_UsageEvent option list \<Rightarrow> nat" where
  "pb_denied_count batch = length (filter (\<lambda>ev. \<not> GetAllowed ev) batch)"

fun grpc_batch_of :: "grpc_call \<Rightarrow> pb_UsageEvent option list" where
  "grpc_batch_of (PublishEventsRPC req) = GetEvents req"
| "grpc_batch_of ClearCall = []"

definition grpc_ingested :: "grpc_call list \<Rightarrow> pb_UsageEvent option list" where
  "grpc_ingested cs = concat (map grpc_batch_of cs)"

text \<open>The filter of the list handler: the empty filter accepts every record.\<close>

definition matches :: "string \<Rightarrow> UsageEvent \<Rightarrow> bool" where
  "matches tenantFilter ev = (tenantFilter = [] \<or> TenantKey ev = tenantFilter)"

section \<open>The window after a sequence of requests\<close>

lemma newest_all: "length xs \<le> n \<Longrightarrow> newest n xs = xs"
  by (simp add: newest_def)

lemma length_newest: "length (newest n xs) = min n (length xs)"
  by (simp add: newest_def)

lemma newest_append: "newest n (newest n xs @ ys) = newest n (xs @ ys)"
proof (cases "length xs \<le> n")
  case True
  then show ?thesis by (simp add: newest_all)
next
  case False
  then have "length xs - n + n = length xs" by simp
  then show ?thesis by (simp add: newest_def add.commute)
qed

lemma events_store: "events (store batch s) = newest maxStoredEvents (events s @ batch)"
  by (simp add: store_def newest_def Let_def)

lemma counters_store:
  "totalReceived (store batch s) = totalReceived s"
  "totalAllowed (store batch s) = totalAllowed s"
  "totalDenied (store batch s) = totalDenied s"
  by (simp_all add: store_def Let_def)

lemma events_HandlePublishEvents:
  "events (snd (HandlePublishEvents decode reqBody s)) =
     (case decode reqBody of None \<Rightarrow> events s
      | Some req \<Rightarrow> newest maxStoredEvents (events s @ elems (Events req)))"
  by (simp add: HandlePublishEvents_def Let_def events_store split: option.split prod.split)

lemma events_HandleClearEvents: "events (snd (HandleClearEvents s)) = []"
  by (simp add: HandleClearEvents_def Let_def)

lemma length_events_handle:
  "length (events s) \<le> maxStoredEvents \<Longrightarrow>
   length (events (snd (handle decode r s))) \<le> maxStoredEvents"
  by (cases r) (simp_all add: events_HandlePublishEvents events_HandleClearEvents length_newest
      split: option.split)

lemma length_events_serve:
  "length (events s) \<le> maxStoredEvents \<Longrightarrow>
   length (events (serve decode rs s)) \<le> maxStoredEvents"
  by (induction rs arbitrary: s) (simp_all add: length_events_handle)

lemma events_handle_no_clear:
  "r \<noteq> ClearEvents \<Longrightarrow> length (events s) \<le> maxStoredEvents \<Longrightarrow>
   events (snd (handle decode r s)) = newest maxStoredEvents (events s @ batch_of decode r)"
  by (cases r) (simp_all add: events_HandlePublishEvents newest_all split: option.split)

lemma events_serve_no_clear:
  "ClearEvents \<notin> set rs \<Longrightarrow> length (events s) \<le> maxStoredEvents \<Longrightarrow>
   events (serve decode rs s) = newest maxStoredEvents (events s @ ingested decode rs)"
proof (induction rs arbitrary: s)
  case Nil
  then show ?case by (simp add: ingested_def newest_all)
next
  case (Cons r rs)
  have r: "r \<noteq> ClearEvents" and rs: "ClearEvents \<notin> set rs"
    using Cons.prems(1) by auto
  have step: "events (snd (handle decode r s)) =
      newest maxStoredEvents (events s @ batch_of decode r)"
    using r Cons.prems(2) by (rule events_handle_no_clear)
  have len: "length (events (snd (handle decode r s))) \<le> maxStoredEvents"
    using Cons.prems(2) by (rule length_events_handle)
  have "events (serve decode (r # rs) s) =
      newest maxStoredEvents (events (snd (handle decode r s)) @ ingested decode rs)"
    using Cons.IH [OF rs len] by simp
  also have "\<dots> = newest maxStoredEvents ((events s @ batch_of decode r) @ ingested decode rs)"
    unfolding step by (rule newest_append)
  finally show ?case by (simp add: ingested_def)
qed

lemma stats_of_HandleStats:
  "stats_of (HandleStats s) =
     Some \<lparr>TotalReceived = totalReceived s, TotalAllowed = totalAllowed s,
           TotalDenied = totalDenied s, StoredEvents = length (events s)\<rparr>"
  by (simp add: stats_of_def HandleStats_def writeJSON_def Let_def)

section \<open>Counters and the publish handlers\<close>

lemma count_split: "allowed_count evs + denied_count evs = length evs"
  by (induction evs) (simp_all add: allowed_count_def denied_count_def)

lemma pb_count_split: "pb_allowed_count batch + pb_denied_count batch = length batch"
  by (induction batch) (simp_all add: pb_allowed_count_def pb_denied_count_def)

lemma classify_counts:
  "classify evs (a, d) = (a + word_of_nat (allowed_count evs), d + word_of_nat (denied_count evs))"
  by (induction evs arbitrary: a d) (simp_all add: allowed_count_def denied_count_def)

lemma HandlePublishEvents_decoded:
  "decode reqBody = Some req \<Longrightarrow>
   HandlePublishEvents decode reqBody s =
     (writeJSON StatusOK (PublishEventsResponse (word_of_nat (length (elems (Events req))))),
      \<lparr>events = newest maxStoredEvents (events s @ elems (Events req)),
       totalReceived = totalReceived s + word_of_nat (length (elems (Events req))),
       totalAllowed = totalAllowed s + word_of_nat (allowed_count (elems (Events req))),
       totalDenied = totalDenied s + word_of_nat (denied_count (elems (Events req)))\<rparr>)"
  by (simp add: HandlePublishEvents_def Let_def classify_counts events_store counters_store)

lemma HandlePublishEvents_rejected:
  "decode reqBody = None \<Longrightarrow>
   HandlePublishEvents decode reqBody s =
     (writeJSON StatusBadRequest (ErrorResponse ''invalid request body''), s)"
  by (simp add: HandlePublishEvents_def)

lemma convert_loop_result:
  "i + length batch \<le> length converted \<Longrightarrow>
   convert_loop batch i (converted, a, d) =
     (take i converted @ map UsageEvent_of batch @ drop (i + length batch) converted,
      a + word_of_nat (pb_allowed_count batch), d + word_of_nat (pb_denied_count batch))"
proof (induction batch arbitrary: i converted a d)
  case Nil
  then show ?case by (simp add: pb_allowed_count_def pb_denied_count_def)
next
  case (Cons ev rest)
  have i: "i < length converted" using Cons.prems by simp
  have len: "Suc i + length rest \<le> length (converted[i := UsageEvent_of ev])"
    using Cons.prems by simp
  have upd: "take (Suc i) (converted[i := UsageEvent_of ev]) = take i converted @ [UsageEvent_of ev]"
    using i by (simp add: take_Suc_conv_app_nth)
  show ?case
    using Cons.IH [OF len] upd
    by (simp add: Let_def pb_allowed_count_def pb_denied_count_def)
qed

lemma PublishEvents_effect:
  "PublishEvents req s =
     (word_of_nat (length (GetEvents req)),
      \<lparr>events = newest maxStoredEvents (events s @ map UsageEvent_of (GetEvents req)),
       totalReceived = totalReceived s + word_of_nat (length (GetEvents req)),
       totalAllowed = totalAllowed s + word_of_nat (pb_allowed_count (GetEvents req)),
       totalDenied = totalDenied s + word_of_nat (pb_denied_count (GetEvents req))\<rparr>)"
  by (simp add: PublishEvents_def Let_def convert_loop_result events_store counters_store)

lemma sint_word_of_nat: "int k < 2 ^ 63 \<Longrightarrow> sint (word_of_nat k :: int64) = int k"
proof -
  assume k: "int k < 2 ^ 63"
  have "- (2 ^ 63) \<le> int k" by (rule order_trans [of _ 0]) simp_all
  then have "signed_take_bit 63 (int k) = int k"
    using k by (rule signed_take_bit_int_eq_self)
  then show ?thesis by (simp add: signed_of_nat)
qed

lemma HandleClearEvents_result:
  "HandleClearEvents s = (\<lparr>status = StatusNoContent, body = NoBody\<rparr>, NewEventService)"
  by (simp add: HandleClearEvents_def NewEventService_def Let_def)

lemma counters_handle_no_clear:
  assumes "r \<noteq> ClearEvents"
  shows "totalReceived (snd (handle decode r s)) =
           totalReceived s + word_of_nat (length (batch_of decode r))"
    and "totalAllowed (snd (handle decode r s)) =
           totalAllowed s + word_of_nat (allowed_count (batch_of decode r))"
    and "totalDenied (snd (handle decode r s)) =
           totalDenied s + word_of_nat (denied_count (batch_of decode r))"
proof -
  have "totalReceived (snd (handle decode r s)) =
           totalReceived s + word_of_nat (length (batch_of decode r)) \<and>
        totalAllowed (snd (handle decode r s)) =
           totalAllowed s + word_of_nat (allowed_count (batch_of decode r)) \<and>
        totalDenied (snd (handle decode r s)) =
           totalDenied s + word_of_nat (denied_count (batch_of decode r))"
  proof (cases r)
    case (Publish reqBody)
    show ?thesis
    proof (cases "decode reqBody")
      case None
      then show ?thesis
        using Publish
        by (simp add: HandlePublishEvents_rejected allowed_count_def denied_count_def)
    next
      case (Some req)
      then show ?thesis
        using Publish by (simp add: HandlePublishEvents_decoded)
    qed
  qed (use assms in \<open>simp_all add: allowed_count_def denied_count_def\<close>)
  then show "totalReceived (snd (handle decode r s)) =
           totalReceived s + word_of_nat (length (batch_of decode r))"
    and "totalAllowed (snd (handle decode r s)) =
           totalAllowed s + word_of_nat (allowed_count (batch_of decode r))"
    and "totalDenied (snd (handle decode r s)) =
           totalDenied s + word_of_nat (denied_count (batch_of decode r))"
    by simp_all
qed

lemma counters_serve_no_clear:
  "ClearEvents \<notin> set rs \<Longrightarrow>
   totalReceived (serve decode rs s) = totalReceived s + word_of_nat (length (ingested decode rs)) \<and>
   totalAllowed (serve decode rs s) =
     totalAllowed s + word_of_nat (allowed_count (ingested decode rs)) \<and>
   totalDenied (serve decode rs s) =
     totalDenied s + word_of_nat (denied_count (ingested decode rs))"
proof (induction rs arbitrary: s)
  case Nil
  then show ?case by (simp add: ingested_def allowed_count_def denied_count_def)
next
  case (Cons r rs)
  have r: "r \<noteq> ClearEvents" and rs: "ClearEvents \<notin> set rs"
    using Cons.prems by auto
  show ?case
    using Cons.IH [OF rs, of "snd (handle decode r s)"] counters_handle_no_clear [OF r, of decode s]
    by (simp add: ingested_def allowed_count_def denied_count_def add.assoc)
qed

lemma identity_handle:
  assumes "totalReceived s = totalAllowed s + totalDenied s"
  shows "totalReceived (snd (handle decode r s)) =
         totalAllowed (snd (handle decode r s)) + totalDenied (snd (handle decode r s))"
proof (cases "r = ClearEvents")
  case True
  then show ?thesis by (simp add: HandleClearEvents_result NewEventService_def)
next
  case False
  have "(word_of_nat (length (batch_of decode r)) :: int64) =
      word_of_nat (allowed_count (batch_of decode r)) + word_of_nat (denied_count (batch_of decode r))"
    by (simp flip: count_split [of "batch_of decode r"])
  then show ?thesis
    using assms by (simp add: counters_handle_no_clear [OF False])
qed

lemma identity_serve:
  "totalReceived s = totalAllowed s + totalDenied s \<Longrightarrow>
   totalReceived (serve decode rs s) = totalAllowed (serve decode rs s) + totalDenied (serve decode rs s)"
  by (induction rs arbitrary: s) (simp_all add: identity_handle)

lemma grpc_handle_no_clear:
  "c \<noteq> ClearCall \<Longrightarrow>
   grpc_handle c s =
     \<lparr>events = newest maxStoredEvents (events s @ map UsageEvent_of (grpc_batch_of c)),
      totalReceived = totalReceived s + word_of_nat (length (grpc_batch_of c)),
      totalAllowed = totalAllowed s + word_of_nat (pb_allowed_count (grpc_batch_of c)),
      totalDenied = totalDenied s + word_of_nat (pb_denied_count (grpc_batch_of c))\<rparr>"
  by (cases c) (simp_all add: PublishEvents_effect)

lemma counters_grpc_serve_no_clear:
  "ClearCall \<notin> set cs \<Longrightarrow>
   totalReceived (grpc_serve cs s) = totalReceived s + word_of_nat (length (grpc_ingested cs)) \<and>
   totalAllowed (grpc_serve cs s) =
     totalAllowed s + word_of_nat (pb_allowed_count (grpc_ingested cs)) \<and>
   totalDenied (grpc_serve cs s) =
     totalDenied s + word_of_nat (pb_denied_count (grpc_ingested cs))"
proof (induction cs arbitrary: s)
  case Nil
  then show ?case by (simp add: grpc_ingested_def pb_allowed_count_def pb_denied_count_def)
next
  case (Cons c cs)
  have c: "c \<noteq> ClearCall" and cs: "ClearCall \<notin> set cs"
    using Cons.prems by auto
  show ?case
    using Cons.IH [OF cs, of "grpc_handle c s"]
    by (simp add: grpc_handle_no_clear [OF c] grpc_ingested_def pb_allowed_count_def
        pb_denied_count_def add.assoc)
qed

lemma identity_grpc_handle:
  assumes "totalReceived s = totalAllowed s + totalDenied s"
  shows "totalReceived (grpc_handle c s) =
         totalAllowed (grpc_handle c s) + totalDenied (grpc_handle c s)"
proof (cases "c = ClearCall")
  case True
  then show ?thesis by (simp add: HandleClearEvents_result NewEventService_def)
next
  case False
  have "(word_of_nat (length (grpc_batch_of c)) :: int64) =
      word_of_nat (pb_allowed_count (grpc_batch_of c)) + word_of_nat (pb_denied_count (grpc_batch_of c))"
    by (simp flip: pb_count_split [of "grpc_batch_of c"])
  then show ?thesis
    using assms by (simp add: grpc_handle_no_clear [OF False])
qed

lemma identity_grpc_serve:
  "totalReceived s = totalAllowed s + totalDenied s \<Longrightarrow>
   totalReceived (grpc_serve cs s) =
     totalAllowed (grpc_serve cs s) + totalDenied (grpc_serve cs s)"
  by (induction cs arbitrary: s) (simp_all add: identity_grpc_handle)

lemma length_events_grpc_handle:
  "length (events s) \<le> maxStoredEvents \<Longrightarrow>
   length (events (grpc_handle c s)) \<le> maxStoredEvents"
  by (cases c) (simp_all add: PublishEvents_effect length_newest events_HandleClearEvents)

lemma length_events_grpc_serve:
  "length (events s) \<le> maxStoredEvents \<Longrightarrow>
   length (events (grpc_serve cs s)) \<le> maxStoredEvents"
  by (induction cs arbitrary: s) (simp_all add: length_events_grpc_handle)

lemma events_grpc_serve_no_clear:
  "ClearCall \<notin> set cs \<Longrightarrow> length (events s) \<le> maxStoredEvents \<Longrightarrow>
   events (grpc_serve cs s) =
     newest maxStoredEvents (events s @ map UsageEvent_of (grpc_ingested cs))"
proof (induction cs arbitrary: s)
  case Nil
  then show ?case by (simp add: grpc_ingested_def newest_all)
next
  case (Cons c cs)
  have c: "c \<noteq> ClearCall" and cs: "ClearCall \<notin> set cs"
    using Cons.prems(1) by auto
  have step: "events (grpc_handle c s) =
      newest maxStoredEvents (events s @ map UsageEvent_of (grpc_batch_of c))"
    by (simp add: grpc_handle_no_clear [OF c])
  have len: "length (events (grpc_handle c s)) \<le> maxStoredEvents"
    using Cons.prems(2) by (rule length_events_grpc_handle)
  have "events (grpc_serve (c # cs) s) =
      newest maxStoredEvents (events (grpc_handle c s) @ map UsageEvent_of (grpc_ingested cs))"
    using Cons.IH [OF cs len] by simp
  also have "\<dots> = newest maxStoredEvents
      ((events s @ map UsageEvent_of (grpc_batch_of c)) @ map UsageEvent_of (grpc_ingested cs))"
    unfolding step by (rule newest_append)
  finally show ?case by (simp add: grpc_ingested_def)
qed

section \<open>Listing\<close>

lemma list_loop_result:
  "- 1 \<le> i \<Longrightarrow> i < int (length evs) \<Longrightarrow>
   list_loop evs tenantFilter limit i result =
     result @ take (nat (limit - int (length result)))
       (filter (matches tenantFilter) (rev (take (nat (i + 1)) evs)))"
proof (induction evs tenantFilter limit i result rule: list_loop.induct)
  case (1 evs tenantFilter limit i result)
  show ?case
  proof (cases "i \<ge> 0 \<and> int (length result) < limit")
    case False
    then have "i = - 1 \<or> limit \<le> int (length result)"
      using "1.prems"(1) by linarith
    then show ?thesis
      using False by (subst list_loop.simps) auto
  next
    case True
    have lower: "- 1 \<le> i - 1" using True by linarith
    have upper: "i - 1 < int (length evs)" using "1.prems"(2) by linarith
    have idx: "nat i < length evs" using True "1.prems"(2) by linarith
    have suc: "nat (i + 1) = Suc (nat i)" using True by linarith
    have window: "rev (take (nat (i + 1)) evs) = evs ! nat i # rev (take (nat i) evs)"
      using idx by (simp add: suc take_Suc_conv_app_nth)
    have room: "nat (limit - int (length result)) = Suc (nat (limit - (1 + int (length result))))"
      using True by linarith
    show ?thesis
    proof (cases "tenantFilter \<noteq> [] \<and> TenantKey (evs ! nat i) \<noteq> tenantFilter")
      case skip: True
      have "list_loop evs tenantFilter limit i result =
          list_loop evs tenantFilter limit (i - 1) result"
        using True skip by (subst list_loop.simps) simp
      also have "\<dots> = result @ take (nat (limit - int (length result)))
          (filter (matches tenantFilter) (rev (take (nat (i - 1 + 1)) evs)))"
        using lower upper by (rule "1.IH"(1) [OF True refl skip])
      finally show ?thesis
        using skip by (simp add: window matches_def [of tenantFilter "evs ! nat i"])
    next
      case keep: False
      have "list_loop evs tenantFilter limit i result =
          list_loop evs tenantFilter limit (i - 1) (result @ [evs ! nat i])"
        using True keep by (subst list_loop.simps) (auto simp: Let_def)
      also have "\<dots> = (result @ [evs ! nat i]) @
          take (nat (limit - int (length (result @ [evs ! nat i]))))
            (filter (matches tenantFilter) (rev (take (nat (i - 1 + 1)) evs)))"
        using lower upper by (rule "1.IH"(2) [OF True refl keep])
      finally show ?thesis
        using keep by (simp add: window matches_def [of tenantFilter "evs ! nat i"] room)
    qed
  qed
qed

lemma HandleListEvents_result:
  "HandleListEvents tenantFilter limitStr s =
     writeJSON StatusOK (EventList
       (take (nat (parse_limit limitStr)) (filter (matches tenantFilter) (rev (events s)))))"
  by (simp add: HandleListEvents_def Let_def list_loop_result)

lemma parse_limit_positive: "0 < parse_limit limitStr"
  by (simp add: parse_limit_def split: option.split)

lemma parse_limit_Atoi:
  "Atoi limitStr = Some k \<Longrightarrow> 0 < k \<Longrightarrow> parse_limit limitStr = k"
  by (auto simp: parse_limit_def Atoi_def)

lemma parse_limit_default:
  "Atoi limitStr = None \<or> (\<exists>n. Atoi limitStr = Some n \<and> n \<le> 0) \<Longrightarrow> parse_limit limitStr = 100"
  by (auto simp: parse_limit_def)

text \<open>The equations that evaluate a concrete run.\<close>

lemmas conc_eval = schedule_def HandlePublishEvents_def HandleStats_def HandleClearEvents_def
  store_def NewEventService_def maxStoredEvents_def testDecode_def testEvent_def
  writeJSON_def StatusOK_def Let_def

section \<open>Interleavings of concurrent requests\<close>

lemma events_step:
  "events (snd (step decode g s)) =
     (case g of
        AtStore reqBody \<Rightarrow>
          (case decode reqBody of None \<Rightarrow> events s
           | Some req \<Rightarrow> newest maxStoredEvents (events s @ elems (Events req)))
      | AtTruncate \<Rightarrow> []
      | _ \<Rightarrow> events s)"
  by (cases g) (simp_all add: events_store Let_def split: option.split prod.split)

lemma step_capacity:
  "length (events s) \<le> maxStoredEvents \<Longrightarrow>
   length (events (snd (step decode g s))) \<le> maxStoredEvents"
  by (simp add: events_step length_newest split: goroutine.split option.split)

lemma length_schedule [simp]: "length (snd (schedule decode i cfg)) = length (snd cfg)"
  by (simp add: schedule_def)

lemma length_run [simp]: "length (snd (run decode sched cfg)) = length (snd cfg)"
  by (induction sched arbitrary: cfg) simp_all

lemma schedule_capacity:
  "length (events (fst cfg)) \<le> maxStoredEvents \<Longrightarrow>
   length (events (fst (schedule decode i cfg))) \<le> maxStoredEvents"
  by (simp add: schedule_def step_capacity)

lemma instants_capacity:
  "length (events (fst cfg)) \<le> maxStoredEvents \<Longrightarrow> t \<in> set (instants decode sched cfg) \<Longrightarrow>
   length (events t) \<le> maxStoredEvents"
proof (induction sched arbitrary: cfg)
  case Nil
  then show ?case by simp
next
  case (Cons i sched)
  show ?case
  proof (cases "t = fst cfg")
    case True
    then show ?thesis using Cons.prems(1) by simp
  next
    case False
    then have "t \<in> set (instants decode sched (schedule decode i cfg))"
      using Cons.prems(2) by simp
    with schedule_capacity [OF Cons.prems(1)] show ?thesis
      by (rule Cons.IH)
  qed
qed

lemma schedule_Finished:
  "snd cfg ! j = Finished resp \<Longrightarrow> snd (schedule decode i cfg) ! j = Finished resp"
  by (cases "j = i") (auto simp: schedule_def nth_list_update)

lemma run_Finished:
  "snd cfg ! j = Finished resp \<Longrightarrow> snd (run decode sched cfg) ! j = Finished resp"
  by (induction sched arbitrary: cfg) (simp_all add: schedule_Finished)

text \<open>What a goroutine at a given program point can only become when it moves.\<close>

lemma schedule_cases:
  "snd (schedule decode i cfg) ! j = snd cfg ! j \<or>
   (j < length (snd cfg) \<and> snd (schedule decode i cfg) ! j = fst (step decode (snd cfg ! j) (fst cfg)))"
  by (cases "j = i") (auto simp: schedule_def)

lemma list_snapshot:
  "snd cfg ! j = AtList tenantFilter limitStr \<Longrightarrow>
   snd (run decode sched cfg) ! j = Finished resp \<Longrightarrow>
   \<exists>t \<in> set (instants decode sched cfg). resp = HandleListEvents tenantFilter limitStr t"
proof (induction sched arbitrary: cfg)
  case Nil
  then show ?case by simp
next
  case (Cons i sched)
  from schedule_cases [of decode i cfg j] show ?case
  proof
    assume "snd (schedule decode i cfg) ! j = snd cfg ! j"
    then have "snd (schedule decode i cfg) ! j = AtList tenantFilter limitStr"
      using Cons.prems(1) by simp
    then have "\<exists>t \<in> set (instants decode sched (schedule decode i cfg)).
        resp = HandleListEvents tenantFilter limitStr t"
      using Cons.prems(2) by (intro Cons.IH) simp_all
    then show ?thesis by auto
  next
    assume "j < length (snd cfg) \<and>
      snd (schedule decode i cfg) ! j = fst (step decode (snd cfg ! j) (fst cfg))"
    then have "snd (schedule decode i cfg) ! j =
        Finished (HandleListEvents tenantFilter limitStr (fst cfg))"
      using Cons.prems(1) by simp
    then have "snd (run decode sched (schedule decode i cfg)) ! j =
        Finished (HandleListEvents tenantFilter limitStr (fst cfg))"
      by (rule run_Finished)
    then have "resp = HandleListEvents tenantFilter limitStr (fst cfg)"
      using Cons.prems(2) by simp
    then show ?thesis by simp
  qed
qed

lemma first_move:
  "snd cfg ! j = g \<Longrightarrow> snd (run decode sched cfg) ! j \<noteq> g \<Longrightarrow>
   \<exists>t cfg1 rest.
      t \<in> set (instants decode sched cfg) \<and>
      snd cfg1 ! j = fst (step decode g t) \<and>
      run decode rest cfg1 = run decode sched cfg \<and>
      set (instants decode rest cfg1) \<subseteq> set (instants decode sched cfg)"
proof (induction sched arbitrary: cfg)
  case Nil
  then show ?case by simp
next
  case (Cons i sched)
  from schedule_cases [of decode i cfg j] show ?case
  proof
    assume same: "snd (schedule decode i cfg) ! j = snd cfg ! j"
    have "\<exists>t cfg1 rest.
        t \<in> set (instants decode sched (schedule decode i cfg)) \<and>
        snd cfg1 ! j = fst (step decode g t) \<and>
        run decode rest cfg1 = run decode sched (schedule decode i cfg) \<and>
        set (instants decode rest cfg1) \<subseteq> set (instants decode sched (schedule decode i cfg))"
      using same Cons.prems by (intro Cons.IH) simp_all
    then obtain t cfg1 rest where
      "t \<in> set (instants decode sched (schedule decode i cfg))"
      "snd cfg1 ! j = fst (step decode g t)"
      "run decode rest cfg1 = run decode sched (schedule decode i cfg)"
      "set (instants decode rest cfg1) \<subseteq> set (instants decode sched (schedule decode i cfg))"
      by blast
    then have "t \<in> set (instants decode (i # sched) cfg) \<and>
        snd cfg1 ! j = fst (step decode g t) \<and>
        run decode rest cfg1 = run decode (i # sched) cfg \<and>
        set (instants decode rest cfg1) \<subseteq> set (instants decode (i # sched) cfg)"
      by auto
    then show ?thesis by blast
  next
    assume "j < length (snd cfg) \<and>
      snd (schedule decode i cfg) ! j = fst (step decode (snd cfg ! j) (fst cfg))"
    then have "fst cfg \<in> set (instants decode (i # sched) cfg) \<and>
        snd (schedule decode i cfg) ! j = fst (step decode g (fst cfg)) \<and>
        run decode sched (schedule decode i cfg) = run decode (i # sched) cfg \<and>
        set (instants decode sched (schedule decode i cfg)) \<subseteq> set (instants decode (i # sched) cfg)"
      using Cons.prems(1) by auto
    then show ?thesis by blast
  qed
qed

lemma stats_instants:
  assumes "snd cfg ! j = AtLen"
    and "snd (run decode sched cfg) ! j = Finished resp"
  shows "\<exists>t0 t1 t2 t3.
      t0 \<in> set (instants decode sched cfg) \<and> t1 \<in> set (instants decode sched cfg) \<and>
      t2 \<in> set (instants decode sched cfg) \<and> t3 \<in> set (instants decode sched cfg) \<and>
      resp = writeJSON StatusOK (Stats
        \<lparr>TotalReceived = totalReceived t1, TotalAllowed = totalAllowed t2,
         TotalDenied = totalDenied t3, StoredEvents = length (events t0)\<rparr>)"
proof -
  have "snd (run decode sched cfg) ! j \<noteq> AtLen"
    using assms(2) by simp
  from first_move [OF assms(1) this] obtain t0 cfg1 rest1 where
    t0: "t0 \<in> set (instants decode sched cfg)"
    and at1: "snd cfg1 ! j = AtLoadReceived (length (events t0))"
    and run1: "run decode rest1 cfg1 = run decode sched cfg"
    and sub1: "set (instants decode rest1 cfg1) \<subseteq> set (instants decode sched cfg)"
    by auto
  have "snd (run decode rest1 cfg1) ! j \<noteq> AtLoadReceived (length (events t0))"
    using assms(2) run1 by simp
  from first_move [OF at1 this] obtain t1 cfg2 rest2 where
    t1: "t1 \<in> set (instants decode rest1 cfg1)"
    and at2: "snd cfg2 ! j = AtLoadAllowed (length (events t0)) (totalReceived t1)"
    and run2: "run decode rest2 cfg2 = run decode rest1 cfg1"
    and sub2: "set (instants decode rest2 cfg2) \<subseteq> set (instants decode rest1 cfg1)"
    by auto
  have "snd (run decode rest2 cfg2) ! j \<noteq> AtLoadAllowed (length (events t0)) (totalReceived t1)"
    using assms(2) run1 run2 by simp
  from first_move [OF at2 this] obtain t2 cfg3 rest3 where
    t2: "t2 \<in> set (instants decode rest2 cfg2)"
    and at3: "snd cfg3 ! j =
        AtLoadDenied (length (events t0)) (totalReceived t1) (totalAllowed t2)"
    and run3: "run decode rest3 cfg3 = run decode rest2 cfg2"
    and sub3: "set (instants decode rest3 cfg3) \<subseteq> set (instants decode rest2 cfg2)"
    by auto
  have "snd (run decode rest3 cfg3) ! j \<noteq>
      AtLoadDenied (length (events t0)) (totalReceived t1) (totalAllowed t2)"
    using assms(2) run1 run2 run3 by simp
  from first_move [OF at3 this] obtain t3 cfg4 rest4 where
    t3: "t3 \<in> set (instants decode rest3 cfg3)"
    and at4: "snd cfg4 ! j = Finished (writeJSON StatusOK (Stats
        \<lparr>TotalReceived = totalReceived t1, TotalAllowed = totalAllowed t2,
         TotalDenied = totalDenied t3, StoredEvents = length (events t0)\<rparr>))"
    and run4: "run decode rest4 cfg4 = run decode rest3 cfg3"
    by auto
  have "snd (run decode rest4 cfg4) ! j = Finished (writeJSON StatusOK (Stats
        \<lparr>TotalReceived = totalReceived t1, TotalAllowed = totalAllowed t2,
         TotalDenied = totalDenied t3, StoredEvents = length (events t0)\<rparr>))"
    using at4 by (rule run_Finished)
  then have resp: "resp = writeJSON StatusOK (Stats
        \<lparr>TotalReceived = totalReceived t1, TotalAllowed = totalAllowed t2,
         TotalDenied = totalDenied t3, StoredEvents = length (events t0)\<rparr>)"
    using assms(2) run1 run2 run3 run4 by simp
  have "t1 \<in> set (instants decode sched cfg)" using t1 sub1 by blast
  moreover have "t2 \<in> set (instants decode sched cfg)" using t2 sub2 sub1 by blast
  moreover have "t3 \<in> set (instants decode sched cfg)" using t3 sub3 sub2 sub1 by blast
  ultimately show ?thesis using t0 resp by blast
qed

lemma alone:
  "run decode [0, 0, 0, 0] (s, [spawn r]) =
     (snd (handle decode r s), [Finished (fst (handle decode r s))])"
proof (cases r)
  case (Publish reqBody)
  then show ?thesis
    by (cases "decode reqBody")
      (simp_all add: schedule_def HandlePublishEvents_def Let_def split: prod.split)
next
  case (ListEvents tenantFilter limitStr)
  then show ?thesis by (simp add: schedule_def)
next
  case GetStats
  then show ?thesis by (simp add: schedule_def HandleStats_def Let_def)
next
  case ClearEvents
  then show ?thesis by (simp add: schedule_def HandleClearEvents_def Let_def)
qed

section \<open>The claims\<close>

text \<open>
  C1, capacity bound. On both receivers, starting from the empty store, after every
  prefix of every sequence of requests (publish, list, stats, clear) the window holds at
  most \<open>maxStoredEvents\<close> (10000) events; a single \<^verbatim>\<open>store\<close> leaves the window within
  capacity whatever the state before. When the sequence has no clear and ingests more
  than \<open>maxStoredEvents\<close> records in total, the stats handler reports \<open>stored_events\<close>
  equal to \<open>maxStoredEvents\<close> exactly.
\<close>

theorem capacity_bound:
  "length (events (serve decode (take n rs) NewEventService)) \<le> maxStoredEvents \<and>
   length (events (grpc_serve (take n cs) NewEventService)) \<le> maxStoredEvents \<and>
   length (events (store batch t)) \<le> maxStoredEvents \<and>
   maxStoredEvents = 10000 \<and>
   (ClearEvents \<notin> set rs \<and> maxStoredEvents < length (ingested decode rs) \<longrightarrow>
      map_option StoredEvents (stats_of (HandleStats (serve decode rs NewEventService))) =
        Some maxStoredEvents) \<and>
   (ClearCall \<notin> set cs \<and> maxStoredEvents < length (grpc_ingested cs) \<longrightarrow>
      map_option StoredEvents (stats_of (HandleStats (grpc_serve cs NewEventService))) =
        Some maxStoredEvents)"
proof -
  have empty: "length (events (NewEventService :: UsageEvent EventService)) \<le> maxStoredEvents"
    by (simp add: NewEventService_def)
  have grpc_empty:
    "length (events (NewEventService :: grpc_UsageEvent EventService)) \<le> maxStoredEvents"
    by (simp add: NewEventService_def)
  have bound: "length (events (serve decode (take n rs) NewEventService)) \<le> maxStoredEvents"
    using empty by (rule length_events_serve)
  have grpc_bound: "length (events (grpc_serve (take n cs) NewEventService)) \<le> maxStoredEvents"
    using grpc_empty by (rule length_events_grpc_serve)
  have one: "length (events (store batch t)) \<le> maxStoredEvents"
    by (simp add: events_store length_newest)
  have full: "length (events (serve decode rs NewEventService)) = maxStoredEvents"
    if "ClearEvents \<notin> set rs" and "maxStoredEvents < length (ingested decode rs)"
  proof -
    have "events (serve decode rs NewEventService) =
        newest maxStoredEvents (events (NewEventService :: UsageEvent EventService) @ ingested decode rs)"
      using that(1) empty by (rule events_serve_no_clear)
    then show ?thesis
      using that(2) by (simp add: NewEventService_def length_newest)
  qed
  have grpc_full: "length (events (grpc_serve cs NewEventService)) = maxStoredEvents"
    if "ClearCall \<notin> set cs" and "maxStoredEvents < length (grpc_ingested cs)"
  proof -
    have "events (grpc_serve cs NewEventService) =
        newest maxStoredEvents (events (NewEventService :: grpc_UsageEvent EventService) @
          map UsageEvent_of (grpc_ingested cs))"
      using that(1) grpc_empty by (rule events_grpc_serve_no_clear)
    then show ?thesis
      using that(2) by (simp add: NewEventService_def length_newest)
  qed
  show ?thesis
    using bound grpc_bound one full grpc_full
    by (simp add: stats_of_HandleStats maxStoredEvents_def)
qed

theorem capacity_bound_witness:
  "length (events (serve testDecode
      (take 1 [Publish (Some (Some (replicate 10001 (testEvent ''k1'' ''tenant-a'' True)))), GetStats])
      NewEventService)) \<le> 10000 \<and>
   map_option StoredEvents (stats_of (HandleStats (serve testDecode
      [Publish (Some (Some (replicate 10001 (testEvent ''k1'' ''tenant-a'' True)))), GetStats]
      NewEventService))) = Some 10000 \<and>
   map_option StoredEvents (stats_of (HandleStats (grpc_serve
      [PublishEventsRPC (Some \<lparr>pb_Events = Some (replicate 10001 None)\<rparr>)]
      NewEventService))) = Some 10000"
  using capacity_bound [where decode = testDecode and n = 1
      and rs = "[Publish (Some (Some (replicate 10001 (testEvent ''k1'' ''tenant-a'' True)))), GetStats]"
      and cs = "[PublishEventsRPC (Some \<lparr>pb_Events = Some (replicate 10001 None)\<rparr>)]"
      and batch = "[] :: UsageEvent list" and t = NewEventService]
  by (simp add: ingested_def grpc_ingested_def GetEvents_def testDecode_def maxStoredEvents_def)

text \<open>
  C2, accounting identity. On both receivers, after every prefix of every sequence of
  requests from the empty store (publishes, clears, lists and stats in any order) the
  counters satisfy \<open>totalReceived = totalAllowed + totalDenied\<close> in \<^verbatim>\<open>int64\<close> arithmetic.
  After a clear on any state, followed by a clear-free sequence that ingests \<open>a\<close>
  allowed and \<open>d\<close> denied records, the stats handler reports \<open>total_received = a + d\<close>,
  \<open>total_allowed = a\<close> and \<open>total_denied = d\<close> as \<^verbatim>\<open>int64\<close> values; while the total stays
  below \<open>2^63\<close> these are the numbers \<open>a + d\<close>, \<open>a\<close> and \<open>d\<close> themselves.
\<close>

theorem accounting_identity:
  assumes "ClearEvents \<notin> set rs"
    and "a = allowed_count (ingested decode rs)"
    and "d = denied_count (ingested decode rs)"
    and "ClearCall \<notin> set cs"
    and "ga = pb_allowed_count (grpc_ingested cs)"
    and "gd = pb_denied_count (grpc_ingested cs)"
  shows "totalReceived (serve decode (take n qs) NewEventService) =
           totalAllowed (serve decode (take n qs) NewEventService) +
           totalDenied (serve decode (take n qs) NewEventService) \<and>
         (\<exists>st. stats_of (HandleStats (serve decode rs (snd (HandleClearEvents s)))) = Some st \<and>
            TotalReceived st = word_of_nat (a + d) \<and>
            TotalAllowed st = word_of_nat a \<and>
            TotalDenied st = word_of_nat d \<and>
            (int (a + d) < 2 ^ 63 \<longrightarrow>
               sint (TotalReceived st) = int a + int d \<and>
               sint (TotalAllowed st) = int a \<and> sint (TotalDenied st) = int d)) \<and>
         totalReceived (grpc_serve (take n gqs) NewEventService) =
           totalAllowed (grpc_serve (take n gqs) NewEventService) +
           totalDenied (grpc_serve (take n gqs) NewEventService) \<and>
         (\<exists>st. stats_of (HandleStats (grpc_serve cs (snd (HandleClearEvents gs)))) = Some st \<and>
            TotalReceived st = word_of_nat (ga + gd) \<and>
            TotalAllowed st = word_of_nat ga \<and>
            TotalDenied st = word_of_nat gd \<and>
            (int (ga + gd) < 2 ^ 63 \<longrightarrow>
               sint (TotalReceived st) = int ga + int gd \<and>
               sint (TotalAllowed st) = int ga \<and> sint (TotalDenied st) = int gd))"
proof -
  have http_inv: "totalReceived (serve decode (take n qs) NewEventService) =
           totalAllowed (serve decode (take n qs) NewEventService) +
           totalDenied (serve decode (take n qs) NewEventService)"
    by (rule identity_serve) (simp add: NewEventService_def)
  have grpc_inv: "totalReceived (grpc_serve (take n gqs) NewEventService) =
           totalAllowed (grpc_serve (take n gqs) NewEventService) +
           totalDenied (grpc_serve (take n gqs) NewEventService)"
    by (rule identity_grpc_serve) (simp add: NewEventService_def)
  have exact: "sint (word_of_nat (x + y) :: int64) = int x + int y \<and>
      sint (word_of_nat x :: int64) = int x \<and> sint (word_of_nat y :: int64) = int y"
    if "int (x + y) < 2 ^ 63" for x y
  proof -
    have "int x < 2 ^ 63" and "int y < 2 ^ 63" using that by simp_all
    then show ?thesis
      using that sint_word_of_nat [of "x + y"] sint_word_of_nat [of x] sint_word_of_nat [of y]
      by simp
  qed
  have http_counts:
    "\<exists>st. stats_of (HandleStats (serve decode rs (snd (HandleClearEvents s)))) = Some st \<and>
            TotalReceived st = word_of_nat (a + d) \<and>
            TotalAllowed st = word_of_nat a \<and>
            TotalDenied st = word_of_nat d \<and>
            (int (a + d) < 2 ^ 63 \<longrightarrow>
               sint (TotalReceived st) = int a + int d \<and>
               sint (TotalAllowed st) = int a \<and> sint (TotalDenied st) = int d)"
    using counters_serve_no_clear [OF assms(1), of decode NewEventService] exact [of a d]
      count_split [of "ingested decode rs"]
    by (simp add: stats_of_HandleStats HandleClearEvents_result assms(2,3) NewEventService_def)
  have grpc_counts:
    "\<exists>st. stats_of (HandleStats (grpc_serve cs (snd (HandleClearEvents gs)))) = Some st \<and>
            TotalReceived st = word_of_nat (ga + gd) \<and>
            TotalAllowed st = word_of_nat ga \<and>
            TotalDenied st = word_of_nat gd \<and>
            (int (ga + gd) < 2 ^ 63 \<longrightarrow>
               sint (TotalReceived st) = int ga + int gd \<and>
               sint (TotalAllowed st) = int ga \<and> sint (TotalDenied st) = int gd)"
    using counters_grpc_serve_no_clear [OF assms(4), of NewEventService] exact [of ga gd]
      pb_count_split [of "grpc_ingested cs"]
    by (simp add: stats_of_HandleStats HandleClearEvents_result assms(5,6) NewEventService_def)
  show ?thesis
    using http_inv http_counts grpc_inv grpc_counts by blast
qed

theorem accounting_identity_witness:
  "stats_of (HandleStats (serve testDecode
      [Publish (Some (Some [testEvent ''k1'' ''tenant-a'' True, testEvent ''k2'' ''tenant-b'' False])),
       Publish None,
       Publish (Some (Some [testEvent ''k3'' ''tenant-a'' True]))]
      (snd (HandleClearEvents (store (replicate 7 (testEvent ''k0'' [] True)) NewEventService))))) =
     Some \<lparr>TotalReceived = 3, TotalAllowed = 2, TotalDenied = 1, StoredEvents = 3\<rparr> \<and>
   stats_of (HandleStats (grpc_serve
      [PublishEventsRPC (Some \<lparr>pb_Events = Some [None,
         Some \<lparr>pb_Key = ''key-1'', pb_TenantKey = ''tenant-42'', pb_Method = ''DELETE'',
               pb_Path = ''/api/v1/resource/123'', pb_Allowed = True, pb_Remaining = 50,
               pb_Limit = 100, pb_Timestamp = ''2026-02-16T21:30:00Z'', pb_StatusCode = 200,
               pb_RequestId = ''req-xyz''\<rparr>]\<rparr>)]
      (snd (HandleClearEvents NewEventService)))) =
     Some \<lparr>TotalReceived = 2, TotalAllowed = 1, TotalDenied = 1, StoredEvents = 2\<rparr>"
  using accounting_identity [where decode = testDecode and n = 0 and qs = "[]" and gqs = "[]"
      and rs = "[Publish (Some (Some [testEvent ''k1'' ''tenant-a'' True, testEvent ''k2'' ''tenant-b'' False])),
       Publish None,
       Publish (Some (Some [testEvent ''k3'' ''tenant-a'' True]))]"
      and a = 2 and d = 1
      and s = "store (replicate 7 (testEvent ''k0'' [] True)) NewEventService"
      and cs = "[PublishEventsRPC (Some \<lparr>pb_Events = Some [None,
         Some \<lparr>pb_Key = ''key-1'', pb_TenantKey = ''tenant-42'', pb_Method = ''DELETE'',
               pb_Path = ''/api/v1/resource/123'', pb_Allowed = True, pb_Remaining = 50,
               pb_Limit = 100, pb_Timestamp = ''2026-02-16T21:30:00Z'', pb_StatusCode = 200,
               pb_RequestId = ''req-xyz''\<rparr>]\<rparr>)]"
      and ga = 1 and gd = 1 and gs = NewEventService]
  by (simp add: ingested_def grpc_ingested_def testDecode_def testEvent_def allowed_count_def
      denied_count_def pb_allowed_count_def pb_denied_count_def GetEvents_def GetAllowed_def
      stats_of_HandleStats HandleClearEvents_result NewEventService_def
      HandlePublishEvents_decoded HandlePublishEvents_rejected PublishEvents_effect
      newest_def maxStoredEvents_def)

text \<open>
  C3, FIFO eviction. For every sequence of requests without a clear, run on a store
  within its capacity, that ingests the records \<open>R1..Rn\<close> with \<open>n\<close> above
  \<open>maxStoredEvents\<close>: the window afterwards is exactly the last \<open>maxStoredEvents\<close>
  records \<open>R(n - maxStoredEvents + 1)..Rn\<close>, in their order, and the list handler with
  a limit of at least \<open>maxStoredEvents\<close> returns them from the newest to the oldest.
  The gRPC receiver keeps the conversions of the last \<open>maxStoredEvents\<close> messages in the
  same way. A single \<^verbatim>\<open>store\<close> of any batch, on any state, keeps a suffix of the old
  window followed by the batch: it drops from the front only, as many records as the
  capacity needs, and never reorders.
\<close>

theorem fifo_eviction:
  assumes "ClearEvents \<notin> set rs"
    and "length (events s) \<le> maxStoredEvents"
    and "maxStoredEvents < length (ingested decode rs)"
    and "ClearCall \<notin> set cs"
    and "length (events gs) \<le> maxStoredEvents"
    and "maxStoredEvents < length (grpc_ingested cs)"
    and "Atoi limitStr = Some k"
    and "int maxStoredEvents \<le> k"
  shows "events (serve decode rs s) =
           drop (length (ingested decode rs) - maxStoredEvents) (ingested decode rs) \<and>
         length (events (serve decode rs s)) = maxStoredEvents \<and>
         list_of (HandleListEvents [] limitStr (serve decode rs s)) =
           Some (rev (drop (length (ingested decode rs) - maxStoredEvents) (ingested decode rs))) \<and>
         events (grpc_serve cs gs) =
           drop (length (grpc_ingested cs) - maxStoredEvents)
             (map UsageEvent_of (grpc_ingested cs)) \<and>
         events (store batch t) =
           drop (length (events t @ batch) - maxStoredEvents) (events t @ batch)"
proof -
  have "events (serve decode rs s) = newest maxStoredEvents (events s @ ingested decode rs)"
    using assms(1,2) by (rule events_serve_no_clear)
  then have window: "events (serve decode rs s) =
      drop (length (ingested decode rs) - maxStoredEvents) (ingested decode rs)"
    using assms(3) by (simp add: newest_def)
  then have len: "length (events (serve decode rs s)) = maxStoredEvents"
    using assms(3) by simp
  have "0 < k" using assms(8) by (simp add: maxStoredEvents_def)
  then have "parse_limit limitStr = k"
    using assms(7) by (simp add: parse_limit_Atoi)
  then have "list_of (HandleListEvents [] limitStr (serve decode rs s)) =
      Some (take (nat k) (rev (events (serve decode rs s))))"
    by (simp add: HandleListEvents_result list_of_def writeJSON_def matches_def)
  moreover have "length (rev (events (serve decode rs s))) \<le> nat k"
    using len assms(8) by simp
  ultimately have listing: "list_of (HandleListEvents [] limitStr (serve decode rs s)) =
      Some (rev (events (serve decode rs s)))"
    by simp
  have "events (grpc_serve cs gs) =
      newest maxStoredEvents (events gs @ map UsageEvent_of (grpc_ingested cs))"
    using assms(4,5) by (rule events_grpc_serve_no_clear)
  then have grpc_window: "events (grpc_serve cs gs) =
      drop (length (grpc_ingested cs) - maxStoredEvents) (map UsageEvent_of (grpc_ingested cs))"
    using assms(6) by (simp add: newest_def)
  have one: "events (store batch t) =
      drop (length (events t @ batch) - maxStoredEvents) (events t @ batch)"
    by (simp add: events_store newest_def)
  show ?thesis
    using window len listing grpc_window one by simp
qed

theorem fifo_eviction_witness:
  "events (serve testDecode
      [Publish (Some (Some [testEvent ''k1'' ''tenant-a'' True, testEvent ''k2'' ''tenant-b'' True])),
       Publish (Some (Some (replicate 9999 (testEvent ''k3'' ''tenant-a'' False))))]
      NewEventService) =
     testEvent ''k2'' ''tenant-b'' True # replicate 9999 (testEvent ''k3'' ''tenant-a'' False) \<and>
   list_of (HandleListEvents [] ''10000'' (serve testDecode
      [Publish (Some (Some [testEvent ''k1'' ''tenant-a'' True, testEvent ''k2'' ''tenant-b'' True])),
       Publish (Some (Some (replicate 9999 (testEvent ''k3'' ''tenant-a'' False))))]
      NewEventService)) =
     Some (replicate 9999 (testEvent ''k3'' ''tenant-a'' False) @ [testEvent ''k2'' ''tenant-b'' True]) \<and>
   events (grpc_serve
      [PublishEventsRPC (Some \<lparr>pb_Events = Some [None]\<rparr>),
       PublishEventsRPC (Some \<lparr>pb_Events = Some (replicate 10000 None)\<rparr>)]
      NewEventService) = replicate 10000 zero_UsageEvent"
  using fifo_eviction [where decode = testDecode and s = NewEventService and gs = NewEventService
      and rs = "[Publish (Some (Some [testEvent ''k1'' ''tenant-a'' True, testEvent ''k2'' ''tenant-b'' True])),
        Publish (Some (Some (replicate 9999 (testEvent ''k3'' ''tenant-a'' False))))]"
      and cs = "[PublishEventsRPC (Some \<lparr>pb_Events = Some [None]\<rparr>),
        PublishEventsRPC (Some \<lparr>pb_Events = Some (replicate 10000 None)\<rparr>)]"
      and limitStr = "''10000''" and k = 10000
      and batch = "[] :: UsageEvent list" and t = NewEventService]
  by (simp add: ingested_def grpc_ingested_def GetEvents_def testDecode_def maxStoredEvents_def
      NewEventService_def Atoi_def digit_val_def UsageEvent_of_def zero_UsageEvent_def
      GetKey_def GetTenantKey_def GetMethod_def GetPath_def GetAllowed_def GetRemaining_def
      GetLimit_def GetTimestamp_def GetStatusCode_def GetRequestId_def)

text \<open>
  C4, non-torn snapshots. The claim fails: the window and the three counters are
  updated by four separate accesses, and stats reads them by four separate accesses.
  With one publish of one allowed record and one stats request in flight on the empty
  store, the schedule that lets stats run between \<^verbatim>\<open>s.store\<close> and
  \<^verbatim>\<open>s.totalReceived.Add\<close> makes stats report \<open>(0, 0, 0, 1)\<close>, which is neither the
  state before the batch, \<open>(0, 0, 0, 0)\<close>, nor the state after it, \<open>(1, 1, 0, 1)\<close>. The
  schedule that lets the whole publish run between the length read and the loads of
  stats makes it report \<open>(1, 1, 0, 0)\<close>, the numbers of no instant of the run at all.
  With a clear and a stats request in flight on the store after that batch, stats can
  report \<open>(1, 1, 0, 0)\<close>: the window emptied, the counters not yet reset. With that
  publish and a clear in flight together, the resets can fall between the increments,
  and once both have returned every later stats reports \<open>(1, 0, 0, 0)\<close>.
\<close>

theorem torn_snapshot_counterexample:
  "snd (run testDecode [0, 1, 1, 1, 1, 0, 0, 0]
      (NewEventService, [AtStore (Some (Some [testEvent ''k1'' ''tenant-a'' True])), AtLen])) ! 1 =
     Finished (writeJSON StatusOK (Stats
       \<lparr>TotalReceived = 0, TotalAllowed = 0, TotalDenied = 0, StoredEvents = 1\<rparr>)) \<and>
   HandleStats (NewEventService :: UsageEvent EventService) =
     writeJSON StatusOK (Stats
       \<lparr>TotalReceived = 0, TotalAllowed = 0, TotalDenied = 0, StoredEvents = 0\<rparr>) \<and>
   HandleStats (snd (HandlePublishEvents testDecode
       (Some (Some [testEvent ''k1'' ''tenant-a'' True])) NewEventService)) =
     writeJSON StatusOK (Stats
       \<lparr>TotalReceived = 1, TotalAllowed = 1, TotalDenied = 0, StoredEvents = 1\<rparr>) \<and>
   snd (run testDecode [1, 0, 0, 0, 0, 1, 1, 1]
      (NewEventService, [AtStore (Some (Some [testEvent ''k1'' ''tenant-a'' True])), AtLen])) ! 1 =
     Finished (writeJSON StatusOK (Stats
       \<lparr>TotalReceived = 1, TotalAllowed = 1, TotalDenied = 0, StoredEvents = 0\<rparr>)) \<and>
   writeJSON StatusOK (Stats
       \<lparr>TotalReceived = 1, TotalAllowed = 1, TotalDenied = 0, StoredEvents = 0\<rparr>)
     \<notin> set (map HandleStats (instants testDecode [1, 0, 0, 0, 0, 1, 1, 1]
      (NewEventService, [AtStore (Some (Some [testEvent ''k1'' ''tenant-a'' True])), AtLen]))) \<and>
   snd (run testDecode [0, 1, 1, 1, 1, 0, 0, 0]
      (snd (HandlePublishEvents testDecode
         (Some (Some [testEvent ''k1'' ''tenant-a'' True])) NewEventService),
       [AtTruncate, AtLen])) ! 1 =
     Finished (writeJSON StatusOK (Stats
       \<lparr>TotalReceived = 1, TotalAllowed = 1, TotalDenied = 0, StoredEvents = 0\<rparr>)) \<and>
   HandleStats (fst (run testDecode [0, 1, 1, 0, 0, 1, 1, 0]
      (NewEventService,
       [AtStore (Some (Some [testEvent ''k1'' ''tenant-a'' True])), AtTruncate]))) =
     writeJSON StatusOK (Stats
       \<lparr>TotalReceived = 1, TotalAllowed = 0, TotalDenied = 0, StoredEvents = 0\<rparr>)"
  by (simp add: conc_eval)

text \<open>
  C4 as amended. The updates of the window are indivisible for readers: a goroutine
  changes the window only by the append-and-trim of a whole batch or by the truncation
  of a clear, each one critical section, so at every instant of every interleaving the
  window is within capacity; a list request returns what the sequential list handler
  returns on the service as it was at one instant of the run. The counters are not
  updated together with the window: each number of a stats response is the value of its
  field at some instant of the run, and the four instants may differ. A request that
  runs with no other request in flight does exactly what its sequential handler does.
\<close>

theorem window_updates_indivisible:
  assumes "length (events (fst cfg)) \<le> maxStoredEvents"
    and "j < length (snd cfg)"
  shows "(\<forall>t \<in> set (instants decode sched cfg). length (events t) \<le> maxStoredEvents) \<and>
         events (snd (step decode g s)) =
           (case g of
              AtStore reqBody \<Rightarrow>
                (case decode reqBody of None \<Rightarrow> events s
                 | Some req \<Rightarrow> events (store (elems (Events req)) s))
            | AtTruncate \<Rightarrow> []
            | _ \<Rightarrow> events s) \<and>
         (snd cfg ! j = AtList tenantFilter limitStr \<and>
          snd (run decode sched cfg) ! j = Finished resp \<longrightarrow>
            (\<exists>t \<in> set (instants decode sched cfg).
               resp = HandleListEvents tenantFilter limitStr t)) \<and>
         (snd cfg ! j = AtLen \<and> snd (run decode sched cfg) ! j = Finished resp \<longrightarrow>
            (\<exists>t0 \<in> set (instants decode sched cfg). \<exists>t1 \<in> set (instants decode sched cfg).
             \<exists>t2 \<in> set (instants decode sched cfg). \<exists>t3 \<in> set (instants decode sched cfg).
               resp = writeJSON StatusOK (Stats
                 \<lparr>TotalReceived = totalReceived t1, TotalAllowed = totalAllowed t2,
                  TotalDenied = totalDenied t3, StoredEvents = length (events t0)\<rparr>))) \<and>
         run decode [0, 0, 0, 0] (s, [spawn r]) =
           (snd (handle decode r s), [Finished (fst (handle decode r s))])"
proof -
  have capacity: "\<forall>t \<in> set (instants decode sched cfg). length (events t) \<le> maxStoredEvents"
    using assms(1) by (blast intro: instants_capacity)
  have window: "events (snd (step decode g s)) =
           (case g of
              AtStore reqBody \<Rightarrow>
                (case decode reqBody of None \<Rightarrow> events s
                 | Some req \<Rightarrow> events (store (elems (Events req)) s))
            | AtTruncate \<Rightarrow> []
            | _ \<Rightarrow> events s)"
    by (simp add: events_step events_store split: goroutine.split option.split)
  have listing: "\<exists>t \<in> set (instants decode sched cfg).
      resp = HandleListEvents tenantFilter limitStr t"
    if "snd cfg ! j = AtList tenantFilter limitStr"
      and "snd (run decode sched cfg) ! j = Finished resp"
    using that by (rule list_snapshot)
  have stats: "\<exists>t0 \<in> set (instants decode sched cfg). \<exists>t1 \<in> set (instants decode sched cfg).
             \<exists>t2 \<in> set (instants decode sched cfg). \<exists>t3 \<in> set (instants decode sched cfg).
               resp = writeJSON StatusOK (Stats
                 \<lparr>TotalReceived = totalReceived t1, TotalAllowed = totalAllowed t2,
                  TotalDenied = totalDenied t3, StoredEvents = length (events t0)\<rparr>)"
    if "snd cfg ! j = AtLen" and "snd (run decode sched cfg) ! j = Finished resp"
    using stats_instants [OF that] by blast
  show ?thesis
    using capacity window listing stats alone [of decode s r] by blast
qed

theorem window_updates_indivisible_witness:
  "snd (run testDecode [0, 1, 2, 0, 0, 0]
      (NewEventService,
       [AtStore (Some (Some [testEvent ''k1'' ''tenant-a'' True, testEvent ''k2'' ''tenant-b'' False])),
        AtLen, AtList [] []])) ! 2 =
     Finished (writeJSON StatusOK
       (EventList [testEvent ''k2'' ''tenant-b'' False, testEvent ''k1'' ''tenant-a'' True])) \<and>
   length (events (fst (run testDecode [0, 1, 2, 0, 0, 0]
      (NewEventService,
       [AtStore (Some (Some [testEvent ''k1'' ''tenant-a'' True, testEvent ''k2'' ''tenant-b'' False])),
        AtLen, AtList [] []])))) \<le> 10000"
  using window_updates_indivisible [where decode = testDecode and sched = "[0, 1, 2, 0, 0, 0]"
      and cfg = "(NewEventService,
       [AtStore (Some (Some [testEvent ''k1'' ''tenant-a'' True, testEvent ''k2'' ''tenant-b'' False])),
        AtLen, AtList [] []])"
      and j = 2 and tenantFilter = "[]" and limitStr = "[]" and g = AtLen and s = NewEventService
      and r = GetStats
      and resp = "writeJSON StatusOK
       (EventList [testEvent ''k2'' ''tenant-b'' False, testEvent ''k1'' ''tenant-a'' True])"]
  by (simp add: conc_eval HandleListEvents_result parse_limit_def matches_def)

text \<open>
  C5, ingest contract. For every batch that decodes (the empty batch included), the
  publish handler answers 200 with \<open>accepted\<close> equal to the batch length, the window
  becomes the old window followed by the whole batch in batch order, trimmed from the
  front to \<open>maxStoredEvents\<close>, and the three counters advance by the batch length and
  by the numbers of allowed and of denied records of the whole batch, whether or not
  the records survive the trim. The RPC of the gRPC receiver does the same with the
  converted batch. A slice is shorter than \<open>2^63\<close>, and then \<open>accepted\<close> is the length
  itself.
\<close>

theorem ingest_contract:
  assumes "decode reqBody = Some req"
    and "batch = elems (Events req)"
    and "pbatch = GetEvents preq"
  shows "HandlePublishEvents decode reqBody s =
           (writeJSON StatusOK (PublishEventsResponse (word_of_nat (length batch))),
            \<lparr>events = drop (length (events s @ batch) - maxStoredEvents) (events s @ batch),
             totalReceived = totalReceived s + word_of_nat (length batch),
             totalAllowed = totalAllowed s + word_of_nat (allowed_count batch),
             totalDenied = totalDenied s + word_of_nat (denied_count batch)\<rparr>) \<and>
         (\<exists>k. accepted_of (fst (HandlePublishEvents decode reqBody s)) = Some k \<and>
              (int (length batch) < 2 ^ 63 \<longrightarrow> sint k = int (length batch))) \<and>
         PublishEvents preq gs =
           (word_of_nat (length pbatch),
            \<lparr>events = drop (length (events gs @ map UsageEvent_of pbatch) - maxStoredEvents)
                        (events gs @ map UsageEvent_of pbatch),
             totalReceived = totalReceived gs + word_of_nat (length pbatch),
             totalAllowed = totalAllowed gs + word_of_nat (pb_allowed_count pbatch),
             totalDenied = totalDenied gs + word_of_nat (pb_denied_count pbatch)\<rparr>) \<and>
         (int (length pbatch) < 2 ^ 63 \<longrightarrow>
            sint (fst (PublishEvents preq gs)) = int (length pbatch))"
  using assms sint_word_of_nat [of "length batch"] sint_word_of_nat [of "length pbatch"]
  by (simp add: HandlePublishEvents_decoded PublishEvents_effect newest_def accepted_of_def
      writeJSON_def)

theorem ingest_contract_witness:
  "HandlePublishEvents testDecode
      (Some (Some (testEvent ''k1'' ''tenant-a'' False # replicate 10000 (testEvent ''k2'' ''tenant-b'' True))))
      NewEventService =
     (writeJSON StatusOK (PublishEventsResponse 10001),
      \<lparr>events = replicate 10000 (testEvent ''k2'' ''tenant-b'' True),
       totalReceived = 10001, totalAllowed = 10000, totalDenied = 1\<rparr>) \<and>
   HandlePublishEvents testDecode (Some (Some [])) NewEventService =
     (writeJSON StatusOK (PublishEventsResponse 0), NewEventService) \<and>
   PublishEvents (Some \<lparr>pb_Events = None\<rparr>) NewEventService = (0, NewEventService)"
  using ingest_contract [where decode = testDecode
      and reqBody = "Some (Some (testEvent ''k1'' ''tenant-a'' False # replicate 10000 (testEvent ''k2'' ''tenant-b'' True)))"
      and req = "\<lparr>Events = Some (testEvent ''k1'' ''tenant-a'' False # replicate 10000 (testEvent ''k2'' ''tenant-b'' True))\<rparr>"
      and batch = "testEvent ''k1'' ''tenant-a'' False # replicate 10000 (testEvent ''k2'' ''tenant-b'' True)"
      and s = NewEventService and preq = "Some \<lparr>pb_Events = None\<rparr>" and pbatch = "[]"
      and gs = NewEventService]
    ingest_contract [where decode = testDecode and reqBody = "Some (Some [])"
      and req = "\<lparr>Events = Some []\<rparr>" and batch = "[]"
      and s = NewEventService and preq = None and pbatch = "[]" and gs = NewEventService]
  by (simp add: testDecode_def testEvent_def NewEventService_def maxStoredEvents_def
      allowed_count_def denied_count_def pb_allowed_count_def pb_denied_count_def GetEvents_def)

text \<open>
  C6, list ordering, cap and tenant filter. For every store state and every limit
  string that parses to a positive \<open>k\<close>, the list handler returns the first \<open>k\<close> of the
  matching records of the window read from the newest to the oldest, hence exactly
  \<open>min k m\<close> records where \<open>m\<close> is the number of retained matching records. With a
  non-empty filter every returned record carries that tenant key (records with an empty
  or another tenant key are left out); with the empty filter nothing is filtered.
\<close>

theorem list_events:
  assumes "Atoi limitStr = Some k" and "0 < k"
  shows "\<exists>result. list_of (HandleListEvents tenantFilter limitStr s) = Some result \<and>
           status (HandleListEvents tenantFilter limitStr s) = StatusOK \<and>
           result = take (nat k) (filter (matches tenantFilter) (rev (events s))) \<and>
           length result = min (nat k) (length (filter (matches tenantFilter) (events s))) \<and>
           (tenantFilter \<noteq> [] \<longrightarrow> (\<forall>ev \<in> set result. TenantKey ev = tenantFilter)) \<and>
           (tenantFilter = [] \<longrightarrow> result = take (nat k) (rev (events s)))"
proof -
  let ?result = "take (nat k) (filter (matches tenantFilter) (rev (events s)))"
  have limit: "parse_limit limitStr = k"
    using assms by (rule parse_limit_Atoi)
  have response: "HandleListEvents tenantFilter limitStr s = writeJSON StatusOK (EventList ?result)"
    by (simp add: HandleListEvents_result limit)
  have len: "length ?result = min (nat k) (length (filter (matches tenantFilter) (events s)))"
    by (simp add: min.commute flip: rev_filter)
  have only: "TenantKey ev = tenantFilter" if "tenantFilter \<noteq> []" and "ev \<in> set ?result" for ev
  proof -
    have "ev \<in> set (filter (matches tenantFilter) (rev (events s)))"
      using that(2) by (rule in_set_takeD)
    then show ?thesis using that(1) by (simp add: matches_def)
  qed
  have all: "?result = take (nat k) (rev (events s))" if "tenantFilter = []"
    using that by (simp add: matches_def)
  show ?thesis
    using len only all by (simp add: response list_of_def writeJSON_def)
qed

theorem list_events_witness:
  "list_of (HandleListEvents ''tenant-a'' ''2''
      (store [testEvent ''k1'' ''tenant-a'' True, testEvent ''k2'' ''tenant-a'' True,
              testEvent ''k3'' ''tenant-b'' True, testEvent ''k4'' [] True,
              testEvent ''k5'' ''tenant-a'' False] NewEventService)) =
     Some [testEvent ''k5'' ''tenant-a'' False, testEvent ''k2'' ''tenant-a'' True]"
  using list_events [of "''2''" 2 "''tenant-a''"
      "store [testEvent ''k1'' ''tenant-a'' True, testEvent ''k2'' ''tenant-a'' True,
              testEvent ''k3'' ''tenant-b'' True, testEvent ''k4'' [] True,
              testEvent ''k5'' ''tenant-a'' False] NewEventService"]
  by (simp add: Atoi_def digit_val_def events_store newest_def maxStoredEvents_def
      NewEventService_def matches_def testEvent_def)

text \<open>
  C7, clear reset and idempotence. After one or more consecutive clears on any state
  the service is in the state of a freshly created one: stats reports \<open>(0, 0, 0, 0)\<close>,
  list returns the empty sequence, clearing the empty store changes nothing, and every
  later request (and every sequence of requests) behaves as on a new store.
\<close>

theorem clear_reset:
  "((\<lambda>t. snd (HandleClearEvents t)) ^^ Suc n) s = NewEventService \<and>
   fst (HandleClearEvents s) = \<lparr>status = StatusNoContent, body = NoBody\<rparr> \<and>
   snd (HandleClearEvents (NewEventService :: UsageEvent EventService)) = NewEventService \<and>
   stats_of (HandleStats (((\<lambda>t. snd (HandleClearEvents t)) ^^ Suc n) s)) =
     Some \<lparr>TotalReceived = 0, TotalAllowed = 0, TotalDenied = 0, StoredEvents = 0\<rparr> \<and>
   list_of (HandleListEvents tenantFilter limitStr (((\<lambda>t. snd (HandleClearEvents t)) ^^ Suc n) s)) =
     Some [] \<and>
   serve decode rs (((\<lambda>t. snd (HandleClearEvents t)) ^^ Suc n) s) =
     serve decode rs NewEventService \<and>
   handle decode r (((\<lambda>t. snd (HandleClearEvents t)) ^^ Suc n) s) =
     handle decode r NewEventService"
proof -
  have cleared: "((\<lambda>t. snd (HandleClearEvents t)) ^^ Suc n) s = NewEventService"
    for s :: "UsageEvent EventService"
    by (induction n) (simp_all add: HandleClearEvents_result)
  show ?thesis
    unfolding cleared
    by (simp add: HandleClearEvents_result stats_of_HandleStats HandleListEvents_result
        list_of_def writeJSON_def NewEventService_def)
qed

theorem clear_reset_witness:
  "stats_of (HandleStats (snd (HandleClearEvents (snd (HandleClearEvents
      (serve testDecode
         [Publish (Some (Some [testEvent ''k1'' ''tenant-a'' True, testEvent ''k2'' ''tenant-a'' False]))]
         NewEventService)))))) =
     Some \<lparr>TotalReceived = 0, TotalAllowed = 0, TotalDenied = 0, StoredEvents = 0\<rparr>"
  using clear_reset [where n = 1 and tenantFilter = "[]" and limitStr = "[]"
      and decode = testDecode and rs = "[]" and r = GetStats
      and s = "serve testDecode
         [Publish (Some (Some [testEvent ''k1'' ''tenant-a'' True, testEvent ''k2'' ''tenant-a'' False]))]
         NewEventService"]
  by (simp add: numeral_eq_Suc stats_of_HandleStats NewEventService_def)

text \<open>
  C8, limit normalization. The claim as written fails on numerals beyond the range of
  \<^verbatim>\<open>int\<close>: \<^verbatim>\<open>limit=99999999999999999999\<close> is numeric, positive and above
  \<open>maxStoredEvents\<close>, yet \<^verbatim>\<open>Atoi\<close> reports a range error and the handler falls back to
  100, so only 100 of the 101 retained records come back.
\<close>

theorem limit_upper_bound_counterexample:
  "list_of (HandleListEvents [] ''99999999999999999999''
      (store (replicate 101 (testEvent ''k1'' ''tenant-a'' True)) NewEventService)) =
     Some (replicate 100 (testEvent ''k1'' ''tenant-a'' True)) \<and>
   filter (matches []) (rev (events
      (store (replicate 101 (testEvent ''k1'' ''tenant-a'' True)) NewEventService))) =
     replicate 101 (testEvent ''k1'' ''tenant-a'' True) \<and>
   parse_digits ''99999999999999999999'' 0 = Some 99999999999999999999 \<and>
   maxStoredEvents < 99999999999999999999"
  by (simp add: HandleListEvents_result parse_limit_def Atoi_def digit_val_def list_of_def
      writeJSON_def events_store newest_def maxStoredEvents_def NewEventService_def matches_def)

text \<open>
  C8 as amended. Every limit string that \<^verbatim>\<open>Atoi\<close> rejects (empty, not a decimal
  numeral, or a numeral outside the range of \<^verbatim>\<open>int\<close>) and every limit that parses to
  zero or less makes the handler use the default 100, never an error. A limit that
  parses is below \<open>2^63\<close>; a positive one is used as it is, with no upper bound of the
  handler's own, so a parsed limit above \<open>maxStoredEvents\<close> returns all retained
  matching records.
\<close>

theorem limit_normalization:
  "(Atoi limitStr = None \<or> (\<exists>m. Atoi limitStr = Some m \<and> m \<le> 0) \<longrightarrow>
      HandleListEvents tenantFilter limitStr s =
        writeJSON StatusOK
          (EventList (take 100 (filter (matches tenantFilter) (rev (events s)))))) \<and>
   (Atoi limitStr = Some n \<and> 0 < n \<longrightarrow>
      n < 2 ^ 63 \<and>
      HandleListEvents tenantFilter limitStr s =
        writeJSON StatusOK
          (EventList (take (nat n) (filter (matches tenantFilter) (rev (events s)))))) \<and>
   (Atoi limitStr = Some n \<and> int maxStoredEvents < n \<and> length (events s) \<le> maxStoredEvents \<longrightarrow>
      HandleListEvents tenantFilter limitStr s =
        writeJSON StatusOK (EventList (filter (matches tenantFilter) (rev (events s)))))"
proof -
  have range: "n < 2 ^ 63" if "Atoi limitStr = Some n"
    using that by (auto simp: Atoi_def Let_def split: list.splits option.splits if_splits)
  have all: "take (nat n) (filter (matches tenantFilter) (rev (events s))) =
      filter (matches tenantFilter) (rev (events s))"
    if "int maxStoredEvents < n" and "length (events s) \<le> maxStoredEvents"
  proof -
    have "length (filter (matches tenantFilter) (rev (events s))) \<le> length (rev (events s))"
      by (rule length_filter_le)
    then have "length (filter (matches tenantFilter) (rev (events s))) \<le> nat n"
      using that by simp
    then show ?thesis by (rule take_all)
  qed
  have pos: "0 < n" if "int maxStoredEvents < n"
    using that by simp
  show ?thesis
    using range all pos
    by (auto simp: HandleListEvents_result parse_limit_default parse_limit_Atoi)
qed

theorem limit_normalization_witness:
  "list_of (HandleListEvents [] ''abc''
      (store (replicate 101 (testEvent ''k1'' ''tenant-a'' True)) NewEventService)) =
     Some (replicate 100 (testEvent ''k1'' ''tenant-a'' True)) \<and>
   list_of (HandleListEvents [] ''-5''
      (store (replicate 101 (testEvent ''k1'' ''tenant-a'' True)) NewEventService)) =
     Some (replicate 100 (testEvent ''k1'' ''tenant-a'' True)) \<and>
   list_of (HandleListEvents [] ''20000''
      (store (replicate 101 (testEvent ''k1'' ''tenant-a'' True)) NewEventService)) =
     Some (replicate 101 (testEvent ''k1'' ''tenant-a'' True))"
  using limit_normalization [where limitStr = "''abc''" and tenantFilter = "[]" and n = 1
      and s = "store (replicate 101 (testEvent ''k1'' ''tenant-a'' True)) NewEventService"]
    limit_normalization [where limitStr = "''-5''" and tenantFilter = "[]" and n = 1
      and s = "store (replicate 101 (testEvent ''k1'' ''tenant-a'' True)) NewEventService"]
    limit_normalization [where limitStr = "''20000''" and tenantFilter = "[]" and n = 20000
      and s = "store (replicate 101 (testEvent ''k1'' ''tenant-a'' True)) NewEventService"]
  by (simp add: Atoi_def digit_val_def list_of_def writeJSON_def events_store newest_def
      maxStoredEvents_def NewEventService_def matches_def)

text \<open>
  C9, malformed input. For every publish request whose body the decoder rejects, on
  every state (within capacity or not): the handler answers 400 with the error body and
  the window and the three counters are what they were. The handler returns before the
  call of \<^verbatim>\<open>store\<close>, so nothing of the state is touched.
\<close>

theorem malformed_input:
  assumes "decode reqBody = None"
  shows "HandlePublishEvents decode reqBody s =
           (writeJSON StatusBadRequest (ErrorResponse ''invalid request body''), s) \<and>
         status (fst (HandlePublishEvents decode reqBody s)) = 400 \<and>
         snd (HandlePublishEvents decode reqBody s) = s"
  using assms by (simp add: HandlePublishEvents_def writeJSON_def StatusBadRequest_def)

theorem malformed_input_witness:
  "HandlePublishEvents testDecode None
      (store [testEvent ''k1'' ''tenant-a'' True] NewEventService) =
     (\<lparr>status = 400, body = ErrorResponse ''invalid request body''\<rparr>,
      store [testEvent ''k1'' ''tenant-a'' True] NewEventService)"
  using malformed_input [of testDecode None "store [testEvent ''k1'' ''tenant-a'' True] NewEventService"]
  by (simp add: testDecode_def writeJSON_def StatusBadRequest_def)

text \<open>
  C10, absent or null \<^verbatim>\<open>events\<close> field. \<^verbatim>\<open>encoding/json\<close> decodes a valid body
  without the field, or with \<^verbatim>\<open>null\<close> for it, to a request whose \<^verbatim>\<open>Events\<close> is the nil
  slice, without error. For such a request, on a store within its capacity, the HTTP
  handler answers 200 with \<open>accepted = 0\<close> and leaves the window and the three counters
  unchanged.
\<close>

theorem absent_events_field:
  assumes "decode reqBody = Some req" and "Events req = None"
    and "length (events s) \<le> maxStoredEvents"
  shows "HandlePublishEvents decode reqBody s =
           (writeJSON StatusOK (PublishEventsResponse 0), s) \<and>
         status (fst (HandlePublishEvents decode reqBody s)) = 200 \<and>
         accepted_of (fst (HandlePublishEvents decode reqBody s)) = Some 0"
  using assms
  by (simp add: HandlePublishEvents_decoded newest_all allowed_count_def denied_count_def
      writeJSON_def StatusOK_def accepted_of_def)

theorem absent_events_field_witness:
  "HandlePublishEvents testDecode (Some None)
      (store [testEvent ''k1'' ''tenant-a'' True] NewEventService) =
     (\<lparr>status = 200, body = PublishEventsResponse 0\<rparr>,
      store [testEvent ''k1'' ''tenant-a'' True] NewEventService)"
  using absent_events_field [of testDecode "Some None" "\<lparr>Events = None\<rparr>"
      "store [testEvent ''k1'' ''tenant-a'' True] NewEventService"]
  by (simp add: testDecode_def writeJSON_def StatusOK_def events_store newest_def
      maxStoredEvents_def NewEventService_def)

end
